theory Spec2Isabelle
  imports Main
begin

section \<open>JavaScript values and strings\<close>

text \<open>
  The genre service (server/index.js) keeps its records in a JavaScript array and reads
  its input from JSON request bodies, URL parameters and query strings.

  Strings are modelled as \<^typ>\<open>string\<close>; a \<^typ>\<open>char\<close> stands for the UTF-16 code unit
  with the same number, so the model covers the code units U+0000 .. U+00FF. Within that
  range the white space of \<^verbatim>\<open>trim\<close>, \<^verbatim>\<open>\s\<close> and \<^verbatim>\<open>parseInt\<close> is
  TAB, LF, VT, FF, CR, SPACE and NBSP, and \<^verbatim>\<open>toLowerCase\<close> maps A-Z and
  U+00C0 .. U+00DE (without U+00D7) to the code unit 32 above.

  The ids of the genres and the id counter are modelled as \<^typ>\<open>int\<close>: they are
  integers, exact in a JavaScript number below \<open>2 ^ 53\<close>.
\<close>

definition code :: "char \<Rightarrow> nat" where
  "code c = of_char c"

definition is_ws :: "char \<Rightarrow> bool" where
  "is_ws c = (code c = 9 \<or> code c = 10 \<or> code c = 11 \<or> code c = 12 \<or> code c = 13
              \<or> code c = 32 \<or> code c = 160)"

text \<open>\<^verbatim>\<open>s.trim()\<close>\<close>

definition trim :: "string \<Rightarrow> string" where
  "trim s = rev (dropWhile is_ws (rev (dropWhile is_ws s)))"

definition lower_char :: "char \<Rightarrow> char" where
  "lower_char c =
     (if (65 \<le> code c \<and> code c \<le> 90) \<or> (192 \<le> code c \<and> code c \<le> 222 \<and> code c \<noteq> 215)
      then char_of (code c + 32) else c)"

text \<open>\<^verbatim>\<open>s.toLowerCase()\<close>\<close>

definition toLowerCase :: "string \<Rightarrow> string" where
  "toLowerCase s = map lower_char s"

text \<open>\<^verbatim>\<open>s.replace(/\s+/g, '')\<close>\<close>

definition remove_ws :: "string \<Rightarrow> string" where
  "remove_ws s = filter (\<lambda>c. \<not> is_ws c) s"

text \<open>\<^verbatim>\<open>s.includes(p)\<close>\<close>

fun str_includes :: "string \<Rightarrow> string \<Rightarrow> bool" where
  "str_includes [] p = (p = [])"
| "str_includes (c # cs) p = (take (length p) (c # cs) = p \<or> str_includes cs p)"

text \<open>\<^verbatim>\<open>a < b\<close> on two strings: code units compared from the left, a proper prefix is smaller.\<close>

fun str_less :: "string \<Rightarrow> string \<Rightarrow> bool" where
  "str_less [] [] = False"
| "str_less [] (y # ys) = True"
| "str_less (x # xs) [] = False"
| "str_less (x # xs) (y # ys) = (code x < code y \<or> (x = y \<and> str_less xs ys))"

text \<open>
  \<^verbatim>\<open>parseInt(s)\<close> with no radix: leading white space is skipped, then an optional sign,
  then an optional \<^verbatim>\<open>0x\<close> or \<^verbatim>\<open>0X\<close> (which selects radix 16), then the longest
  run of digits of the radix. No digit gives NaN, here \<open>None\<close>. What follows the digits
  is ignored.
\<close>

definition digit_val :: "char \<Rightarrow> nat option" where
  "digit_val c =
     (if 48 \<le> code c \<and> code c \<le> 57 then Some (code c - 48)
      else if 97 \<le> code c \<and> code c \<le> 122 then Some (code c - 87)
      else if 65 \<le> code c \<and> code c \<le> 90 then Some (code c - 55)
      else None)"

definition is_digit :: "nat \<Rightarrow> char \<Rightarrow> bool" where
  "is_digit R c = (case digit_val c of Some d \<Rightarrow> d < R | None \<Rightarrow> False)"

definition digit_of :: "char \<Rightarrow> nat" where
  "digit_of c = (case digit_val c of Some d \<Rightarrow> d | None \<Rightarrow> 0)"

definition parseInt :: "string \<Rightarrow> int option" where
  "parseInt inputString =
     (let S0 = dropWhile is_ws inputString;
          sign = (if take 1 S0 = ''-'' then - 1 else (1 :: int));
          S1 = (if take 1 S0 = ''+'' \<or> take 1 S0 = ''-'' then drop 1 S0 else S0);
          hex = (take 2 S1 = ''0x'' \<or> take 2 S1 = ''0X'');
          R = (if hex then 16 else 10);
          S2 = (if hex then drop 2 S1 else S1);
          Z = takeWhile (is_digit R) S2
      in if Z = [] then None
         else Some (sign * int (foldl (\<lambda>acc c. acc * R + digit_of c) 0 Z)))"

text \<open>What a JavaScript expression can throw here: a \<^verbatim>\<open>TypeError\<close>.\<close>

datatype exn = TypeError

fun show_nat :: "nat \<Rightarrow> string" where
  "show_nat n = (if n < 10 then [char_of (48 + n)]
                 else show_nat (n div 10) @ [char_of (48 + n mod 10)])"

declare show_nat.simps [simp del]

text \<open>
  A number of a JSON body is a double, or an infinity when the literal is out of range.
  A double is given by its shortest decimal form, as the number-to-string conversion of
  the language defines it: a sign, the digits \<open>s\<close> (as a natural number, \<open>0\<close> for
  zero) and the exponent \<open>n\<close>, the value being \<open>s * 10 ^ (n - k)\<close> for the number
  \<open>k\<close> of digits of \<open>s\<close>.
\<close>

datatype jsnum = Dec bool nat int | Inf bool

text \<open>The number-to-string conversion (radix 10) on a positive double.\<close>

definition exponent_string :: "int \<Rightarrow> string" where
  "exponent_string e = (if e < 0 then ''-'' else ''+'') @ show_nat (nat \<bar>e\<bar>)"

definition positive_to_string :: "nat \<Rightarrow> int \<Rightarrow> string" where
  "positive_to_string s n =
     (let ds = show_nat s; k = int (length ds)
      in if k \<le> n \<and> n \<le> 21 then ds @ replicate (nat (n - k)) CHR ''0''
         else if 0 < n \<and> n \<le> 21 then take (nat n) ds @ ''.'' @ drop (nat n) ds
         else if - 6 < n \<and> n \<le> 0 then ''0.'' @ replicate (nat (- n)) CHR ''0'' @ ds
         else if k = 1 then ds @ ''e'' @ exponent_string (n - 1)
         else take 1 ds @ ''.'' @ drop 1 ds @ ''e'' @ exponent_string (n - 1))"

fun num_to_string :: "jsnum \<Rightarrow> string" where
  "num_to_string (Inf neg) = (if neg then ''-Infinity'' else ''Infinity'')"
| "num_to_string (Dec neg s n) =
     (if s = 0 then ''0''
      else (if neg then ''-'' else []) @ positive_to_string s n)"

text \<open>The number that holds an integer: its digits without the zeros at the end.\<close>

fun strip_zeros :: "nat \<Rightarrow> nat" where
  "strip_zeros s = (if s \<noteq> 0 \<and> s mod 10 = 0 then strip_zeros (s div 10) else s)"

declare strip_zeros.simps [simp del]

definition num_of_int :: "int \<Rightarrow> jsnum" where
  "num_of_int i =
     (if i = 0 then Dec False 0 0
      else Dec (i < 0) (strip_zeros (nat \<bar>i\<bar>)) (int (length (show_nat (nat \<bar>i\<bar>)))))"

text \<open>
  \<^verbatim>\<open>a > b\<close> on two numbers. Two doubles are compared after scaling both to the
  smaller of the exponents of their last digits.
\<close>

fun last_exponent :: "jsnum \<Rightarrow> int" where
  "last_exponent (Dec neg s n) = n - int (length (show_nat s))"
| "last_exponent (Inf neg) = 0"

fun signed_digits :: "jsnum \<Rightarrow> int" where
  "signed_digits (Dec neg s n) = (if neg then - int s else int s)"
| "signed_digits (Inf neg) = 0"

definition scaled :: "jsnum \<Rightarrow> int \<Rightarrow> int" where
  "scaled a m = signed_digits a * 10 ^ nat (last_exponent a - m)"

fun num_gt :: "jsnum \<Rightarrow> jsnum \<Rightarrow> bool" where
  "num_gt (Inf na) b = (\<not> na \<and> b \<noteq> Inf False)"
| "num_gt (Dec neg s n) (Inf nb) = nb"
| "num_gt (Dec neg s n) (Dec neg' s' n') =
     (let a = Dec neg s n; b = Dec neg' s' n'; m = min (last_exponent a) (last_exponent b)
      in scaled b m < scaled a m)"

text \<open>
  A value of a JSON body, or \<open>Undefined\<close> for a property that is absent. An object
  carries its own properties, in the order of the body.
\<close>

datatype jsval =
    Undefined
  | Null
  | Bool bool
  | Num jsnum
  | Str string
  | Arr "jsval list"
  | Obj "(string \<times> jsval) list"

text \<open>Truthiness, as tested by \<^verbatim>\<open>!v\<close>, \<^verbatim>\<open>v || w\<close> and \<^verbatim>\<open>if (v)\<close>.\<close>

fun truthy :: "jsval \<Rightarrow> bool" where
  "truthy Undefined = False"
| "truthy Null = False"
| "truthy (Bool b) = b"
| "truthy (Num (Dec neg s n)) = (s \<noteq> 0)"
| "truthy (Num (Inf neg)) = True"
| "truthy (Str s) = (s \<noteq> [])"
| "truthy (Arr xs) = True"
| "truthy (Obj ps) = True"

fun join_comma :: "string list \<Rightarrow> string" where
  "join_comma [] = []"
| "join_comma [x] = x"
| "join_comma (x # y # ys) = x @ '','' @ join_comma (y # ys)"

text \<open>
  The string conversion that \<^verbatim>\<open>parseInt\<close> applies to an argument that is not a
  string. An array joins the conversions of its elements with commas, \<^verbatim>\<open>null\<close>
  and \<^verbatim>\<open>undefined\<close> giving the empty string; the first element that throws ends
  it. An object of a JSON body has no callable property: with an own property
  \<^verbatim>\<open>toString\<close> neither it nor \<^verbatim>\<open>valueOf\<close> gives a primitive value and the
  conversion throws; without one the inherited \<^verbatim>\<open>toString\<close> answers
  \<^verbatim>\<open>[object Object]\<close>.
\<close>

fun to_string :: "jsval \<Rightarrow> exn + string"
  and to_strings :: "jsval list \<Rightarrow> exn + string list" where
  "to_string Undefined = Inr ''undefined''"
| "to_string Null = Inr ''null''"
| "to_string (Bool b) = Inr (if b then ''true'' else ''false'')"
| "to_string (Num x) = Inr (num_to_string x)"
| "to_string (Str s) = Inr s"
| "to_string (Arr xs) =
     (case to_strings xs of Inl e \<Rightarrow> Inl e | Inr strs \<Rightarrow> Inr (join_comma strs))"
| "to_string (Obj ps) =
     (if ''toString'' \<in> set (map fst ps) then Inl TypeError else Inr ''[object Object]'')"
| "to_strings [] = Inr []"
| "to_strings (x # xs) =
     (case (if x = Undefined \<or> x = Null then Inr [] else to_string x) of
        Inl e \<Rightarrow> Inl e
      | Inr str \<Rightarrow> (case to_strings xs of Inl e \<Rightarrow> Inl e | Inr strs \<Rightarrow> Inr (str # strs)))"

text \<open>\<^verbatim>\<open>parseInt(v)\<close> for a value of a JSON body.\<close>

definition parseInt_value :: "jsval \<Rightarrow> exn + int option" where
  "parseInt_value v = (case to_string v of Inl e \<Rightarrow> Inl e | Inr s \<Rightarrow> Inr (parseInt s))"

section \<open>The store\<close>

text \<open>
  A timestamp is the string that \<^verbatim>\<open>new Date().toISOString()\<close> returned; the clock
  readings are inputs of the operations. The seed records are written without an
  \<^verbatim>\<open>updatedAt\<close> property, so that field is optional. \<^verbatim>\<open>image\<close> is stored as
  it came from the request and can be any JSON value.
\<close>

type_synonym timestamp = string

record genre =
  gid :: int
  gname :: string
  gdescription :: string
  gimage :: jsval
  createdAt :: timestamp
  updatedAt :: "timestamp option"

text \<open>The module state: \<^verbatim>\<open>let genres = [...]\<close> and \<^verbatim>\<open>let nextId = 5\<close>.\<close>

record store =
  genres :: "genre list"
  nextId :: int

definition seed :: "timestamp \<Rightarrow> timestamp \<Rightarrow> timestamp \<Rightarrow> timestamp \<Rightarrow> genre list" where
  "seed t1 t2 t3 t4 =
     [\<lparr>gid = 1, gname = ''Action'', gdescription = ''Fast-paced, stunt-heavy films'',
        gimage = Str ''/images/action.jpg'', createdAt = t1, updatedAt = None\<rparr>,
      \<lparr>gid = 2, gname = ''Comedy'', gdescription = ''Funny films to make you laugh'',
        gimage = Str ''/images/comedy.jpg'', createdAt = t2, updatedAt = None\<rparr>,
      \<lparr>gid = 3, gname = ''Drama'', gdescription = ''Emotion-driven storytelling'',
        gimage = Str ''/images/drama.jpg'', createdAt = t3, updatedAt = None\<rparr>,
      \<lparr>gid = 4, gname = ''Sci-Fi'', gdescription = ''Futuristic concepts and tech'',
        gimage = Str ''/images/scifi.jpg'', createdAt = t4, updatedAt = None\<rparr>]"

definition initial :: "timestamp \<Rightarrow> timestamp \<Rightarrow> timestamp \<Rightarrow> timestamp \<Rightarrow> store" where
  "initial t1 t2 t3 t4 = \<lparr>genres = seed t1 t2 t3 t4, nextId = 5\<rparr>"

text \<open>\<^verbatim>\<open>const getNextId = () => nextId++\<close>\<close>

definition getNextId :: "store \<Rightarrow> int \<times> store" where
  "getNextId st = (nextId st, st\<lparr>nextId := nextId st + 1\<rparr>)"

text \<open>\<^verbatim>\<open>genres.find(g => g.id === parseInt(id))\<close>; NaN equals no id.\<close>

definition findGenreById :: "store \<Rightarrow> string \<Rightarrow> genre option" where
  "findGenreById st i = find (\<lambda>g. Some (gid g) = parseInt i) (genres st)"

text \<open>\<^verbatim>\<open>Array.prototype.findIndex\<close>, with \<open>None\<close> for \<open>-1\<close>.\<close>

fun findIndex :: "('a \<Rightarrow> bool) \<Rightarrow> 'a list \<Rightarrow> nat option" where
  "findIndex P [] = None"
| "findIndex P (x # xs) =
     (if P x then Some 0 else (case findIndex P xs of None \<Rightarrow> None | Some i \<Rightarrow> Some (Suc i)))"

text \<open>\<^verbatim>\<open>xs.splice(i, 1)\<close>\<close>

definition splice1 :: "nat \<Rightarrow> 'a list \<Rightarrow> 'a list" where
  "splice1 i xs = take i xs @ drop (Suc i) xs"

text \<open>
  What a handler answers when it does not succeed: status 400 with an error list,
  409, 404, the 400 of the bulk delete, and the 500 of a \<^verbatim>\<open>catch\<close> block.
\<close>

datatype error =
    ValidationError "string list"
  | ConflictError
  | NotFound
  | BadRequest
  | InternalError
  | OutsideModel

text \<open>\<^verbatim>\<open>!v || v.trim().length < k\<close>: only a string has \<^verbatim>\<open>trim\<close>.\<close>

definition too_short :: "nat \<Rightarrow> jsval \<Rightarrow> exn + bool" where
  "too_short k v =
     (if \<not> truthy v then Inr True
      else (case v of Str s \<Rightarrow> Inr (length (trim s) < k) | _ \<Rightarrow> Inl TypeError))"

definition validateGenre :: "jsval \<Rightarrow> jsval \<Rightarrow> exn + string list" where
  "validateGenre nm ds =
     (case too_short 2 nm of
        Inl e \<Rightarrow> Inl e
      | Inr bn \<Rightarrow>
          (case too_short 5 ds of
             Inl e \<Rightarrow> Inl e
           | Inr bd \<Rightarrow>
               Inr ((if bn then [''Name must be at least 2 characters long''] else []) @
                    (if bd then [''Description must be at least 5 characters long''] else []))))"

section \<open>The request handlers\<close>

text \<open>
  Each handler takes the store and its request and returns its answer with the store it
  leaves. A \<^verbatim>\<open>TypeError\<close> thrown inside a handler is caught by its
  \<^verbatim>\<open>try ... catch\<close> and answered with status 500, here \<open>InternalError\<close>.
\<close>

text \<open>The properties \<^verbatim>\<open>name\<close>, \<^verbatim>\<open>description\<close>, \<^verbatim>\<open>image\<close> of \<^verbatim>\<open>req.body\<close>.\<close>

record body =
  body_name :: jsval
  body_description :: jsval
  body_image :: jsval

text \<open>\<^verbatim>\<open>GET /api/genres/:id\<close>\<close>

definition get_genre :: "store \<Rightarrow> string \<Rightarrow> error + genre" where
  "get_genre st i = (case findGenreById st i of None \<Rightarrow> Inl NotFound | Some g \<Rightarrow> Inr g)"

text \<open>
  \<^verbatim>\<open>POST /api/genres\<close>. The two clock readings are those of \<^verbatim>\<open>createdAt\<close> and
  \<^verbatim>\<open>updatedAt\<close>, in the order the object literal evaluates them.
\<close>

definition default_image :: "string \<Rightarrow> string" where
  "default_image nm = ''/images/'' @ remove_ws (toLowerCase nm) @ ''.jpg''"

definition create_genre :: "store \<Rightarrow> body \<Rightarrow> timestamp \<Rightarrow> timestamp \<Rightarrow> (error + genre) \<times> store" where
  "create_genre st b t1 t2 =
     (case validateGenre (body_name b) (body_description b) of
        Inl e \<Rightarrow> (Inl InternalError, st)
      | Inr errors \<Rightarrow>
          if errors \<noteq> [] then (Inl (ValidationError errors), st)
          else
            (case (body_name b, body_description b) of
               (Str nm, Str ds) \<Rightarrow>
                 (case find (\<lambda>g. toLowerCase (gname g) = toLowerCase (trim nm)) (genres st) of
                    Some existingGenre \<Rightarrow> (Inl ConflictError, st)
                  | None \<Rightarrow>
                      (let (i, st') = getNextId st;
                           newGenre = \<lparr>gid = i, gname = trim nm, gdescription = trim ds,
                                       gimage = (if truthy (body_image b) then body_image b
                                                 else Str (default_image nm)),
                                       createdAt = t1, updatedAt = Some t2\<rparr>
                       in (Inr newGenre, st'\<lparr>genres := genres st' @ [newGenre]\<rparr>)))
             | _ \<Rightarrow> (Inl InternalError, st)))"

text \<open>\<^verbatim>\<open>PUT /api/genres/:id\<close>\<close>

definition replace_genre :: "store \<Rightarrow> string \<Rightarrow> body \<Rightarrow> timestamp \<Rightarrow> (error + genre) \<times> store" where
  "replace_genre st i b now =
     (case findIndex (\<lambda>g. Some (gid g) = parseInt i) (genres st) of
        None \<Rightarrow> (Inl NotFound, st)
      | Some genreIndex \<Rightarrow>
          (case validateGenre (body_name b) (body_description b) of
             Inl e \<Rightarrow> (Inl InternalError, st)
           | Inr errors \<Rightarrow>
               if errors \<noteq> [] then (Inl (ValidationError errors), st)
               else
                 (case (body_name b, body_description b) of
                    (Str nm, Str ds) \<Rightarrow>
                      (case find (\<lambda>g. Some (gid g) \<noteq> parseInt i \<and>
                                       toLowerCase (gname g) = toLowerCase (trim nm))
                                 (genres st) of
                         Some existingGenre \<Rightarrow> (Inl ConflictError, st)
                       | None \<Rightarrow>
                           (let old = genres st ! genreIndex;
                                updatedGenre = old\<lparr>gname := trim nm, gdescription := trim ds,
                                                  gimage := (if truthy (body_image b)
                                                             then body_image b else gimage old),
                                                  updatedAt := Some now\<rparr>
                            in (Inr updatedGenre,
                                st\<lparr>genres := (genres st)[genreIndex := updatedGenre]\<rparr>)))
                  | _ \<Rightarrow> (Inl InternalError, st))))"

text \<open>
  \<^verbatim>\<open>PATCH /api/genres/:id\<close>. The object \<^verbatim>\<open>updates\<close> has a property for each of
  the three fields that the body defines; \<open>None\<close> is a property that was not set.
\<close>

record updates =
  upd_name :: "string option"
  upd_description :: "string option"
  upd_image :: "jsval option"

text \<open>\<^verbatim>\<open>req.body[field].trim()\<close> for a field that is not \<^verbatim>\<open>undefined\<close>.\<close>

definition trimmed_field :: "jsval \<Rightarrow> exn + string option" where
  "trimmed_field v =
     (case v of Undefined \<Rightarrow> Inr None | Str s \<Rightarrow> Inr (Some (trim s)) | _ \<Rightarrow> Inl TypeError)"

definition collect_updates :: "body \<Rightarrow> exn + updates" where
  "collect_updates b =
     (case trimmed_field (body_name b) of
        Inl e \<Rightarrow> Inl e
      | Inr n \<Rightarrow>
          (case trimmed_field (body_description b) of
             Inl e \<Rightarrow> Inl e
           | Inr d \<Rightarrow>
               Inr \<lparr>upd_name = n, upd_description = d,
                    upd_image = (if body_image b = Undefined then None
                                 else Some (body_image b))\<rparr>))"

text \<open>\<^verbatim>\<open>updates.name\<close> as a condition, and \<^verbatim>\<open>updates.name || fallback\<close>.\<close>

definition truthy_str :: "string option \<Rightarrow> bool" where
  "truthy_str v = (case v of None \<Rightarrow> False | Some s \<Rightarrow> s \<noteq> [])"

definition or_else :: "string option \<Rightarrow> string \<Rightarrow> string" where
  "or_else v d = (case v of None \<Rightarrow> d | Some s \<Rightarrow> if s \<noteq> [] then s else d)"

text \<open>\<^verbatim>\<open>{...old, ...updates, updatedAt: now}\<close>\<close>

definition apply_updates :: "genre \<Rightarrow> updates \<Rightarrow> timestamp \<Rightarrow> genre" where
  "apply_updates old u now =
     old\<lparr>gname := (case upd_name u of None \<Rightarrow> gname old | Some s \<Rightarrow> s),
         gdescription := (case upd_description u of None \<Rightarrow> gdescription old | Some s \<Rightarrow> s),
         gimage := (case upd_image u of None \<Rightarrow> gimage old | Some v \<Rightarrow> v),
         updatedAt := Some now\<rparr>"

definition patch_genre :: "store \<Rightarrow> string \<Rightarrow> body \<Rightarrow> timestamp \<Rightarrow> (error + genre) \<times> store" where
  "patch_genre st i b now =
     (case findIndex (\<lambda>g. Some (gid g) = parseInt i) (genres st) of
        None \<Rightarrow> (Inl NotFound, st)
      | Some genreIndex \<Rightarrow>
          (case collect_updates b of
             Inl e \<Rightarrow> (Inl InternalError, st)
           | Inr u \<Rightarrow>
               (let old = genres st ! genreIndex;
                    errors =
                      (if truthy_str (upd_name u) \<or> truthy_str (upd_description u)
                       then validateGenre (Str (or_else (upd_name u) (gname old)))
                                          (Str (or_else (upd_description u) (gdescription old)))
                       else Inr [])
                in case errors of
                     Inl e \<Rightarrow> (Inl InternalError, st)
                   | Inr errs \<Rightarrow>
                       if errs \<noteq> [] then (Inl (ValidationError errs), st)
                       else if (case upd_name u of
                                  None \<Rightarrow> False
                                | Some nm \<Rightarrow> nm \<noteq> [] \<and>
                                    find (\<lambda>g. Some (gid g) \<noteq> parseInt i \<and>
                                               toLowerCase (gname g) = toLowerCase nm)
                                         (genres st) \<noteq> None)
                       then (Inl ConflictError, st)
                       else
                         (let updatedGenre = apply_updates old u now
                          in (Inr updatedGenre,
                              st\<lparr>genres := (genres st)[genreIndex := updatedGenre]\<rparr>)))))"

text \<open>\<^verbatim>\<open>DELETE /api/genres/:id\<close>\<close>

definition delete_genre :: "store \<Rightarrow> string \<Rightarrow> (error + genre) \<times> store" where
  "delete_genre st i =
     (case findIndex (\<lambda>g. Some (gid g) = parseInt i) (genres st) of
        None \<Rightarrow> (Inl NotFound, st)
      | Some genreIndex \<Rightarrow>
          (Inr (genres st ! genreIndex), st\<lparr>genres := splice1 genreIndex (genres st)\<rparr>))"

text \<open>
  \<^verbatim>\<open>DELETE /api/genres\<close>. The loop state is the array \<^verbatim>\<open>genres\<close> with the two
  arrays that the handler fills. \<^verbatim>\<open>findIndex\<close> calls its predicate, and with it
  \<^verbatim>\<open>parseInt(id)\<close>, once for each genre it visits: on an empty store the id is
  never converted. A conversion that throws ends the loop; the \<^verbatim>\<open>catch\<close> block
  answers with status 500 and the genres removed so far stay removed.
\<close>

record bulk_result =
  deleted :: "genre list"
  deletedCount :: nat
  notFound :: "jsval list"

definition bulk_step :: "jsval \<Rightarrow> genre list \<times> genre list \<times> jsval list
                          \<Rightarrow> exn + genre list \<times> genre list \<times> jsval list" where
  "bulk_step i s =
     (case s of (gs, deletedGenres, notFoundIds) \<Rightarrow>
        if gs = [] then Inr (gs, deletedGenres, notFoundIds @ [i])
        else
          (case parseInt_value i of
             Inl e \<Rightarrow> Inl e
           | Inr n \<Rightarrow>
               (case findIndex (\<lambda>g. Some (gid g) = n) gs of
                  Some genreIndex \<Rightarrow>
                    Inr (splice1 genreIndex gs, deletedGenres @ [gs ! genreIndex], notFoundIds)
                | None \<Rightarrow> Inr (gs, deletedGenres, notFoundIds @ [i]))))"

fun bulk_loop :: "jsval list \<Rightarrow> genre list \<times> genre list \<times> jsval list
                   \<Rightarrow> exn option \<times> genre list \<times> genre list \<times> jsval list" where
  "bulk_loop [] s = (None, s)"
| "bulk_loop (i # ids) s =
     (case bulk_step i s of Inl e \<Rightarrow> (Some e, s) | Inr s' \<Rightarrow> bulk_loop ids s')"

definition bulkDelete :: "store \<Rightarrow> jsval \<Rightarrow> (error + bulk_result) \<times> store" where
  "bulkDelete st ids =
     (case ids of
        Arr xs \<Rightarrow>
          if xs = [] then (Inl BadRequest, st)
          else
            (case bulk_loop xs (genres st, [], []) of
               (Some e, gs, deletedGenres, notFoundIds) \<Rightarrow>
                 (Inl InternalError, st\<lparr>genres := gs\<rparr>)
             | (None, gs, deletedGenres, notFoundIds) \<Rightarrow>
                 (Inr \<lparr>deleted = deletedGenres, deletedCount = length deletedGenres,
                       notFound = notFoundIds\<rparr>,
                  st\<lparr>genres := gs\<rparr>))
      | _ \<Rightarrow> (Inl BadRequest, st))"

text \<open>
  \<^verbatim>\<open>GET /api/genres\<close>. \<^verbatim>\<open>a[sort]\<close> reads the property that the query names;
  a name that is no property of the record gives \<^verbatim>\<open>undefined\<close>.
\<close>

record query =
  q_sort :: "string option"
  q_order :: "string option"
  q_search :: "string option"

definition field :: "string \<Rightarrow> genre \<Rightarrow> jsval" where
  "field k g =
     (if k = ''id'' then Num (num_of_int (gid g))
      else if k = ''name'' then Str (gname g)
      else if k = ''description'' then Str (gdescription g)
      else if k = ''image'' then gimage g
      else if k = ''createdAt'' then Str (createdAt g)
      else if k = ''updatedAt'' then (case updatedAt g of None \<Rightarrow> Undefined | Some t \<Rightarrow> Str t)
      else Undefined)"

text \<open>
  \<^verbatim>\<open>a > b\<close>: two strings are compared as strings, \<^verbatim>\<open>undefined\<close> is greater than
  nothing and nothing is greater than it, and \<^verbatim>\<open>null\<close>, booleans and numbers are
  compared as numbers. The other pairs convert a string or an array to a number, which
  is outside this model: \<open>None\<close>.
\<close>

fun as_number :: "jsval \<Rightarrow> jsnum option" where
  "as_number Null = Some (Dec False 0 0)"
| "as_number (Bool b) = Some (if b then Dec False 1 1 else Dec False 0 0)"
| "as_number (Num x) = Some x"
| "as_number v = None"

definition gt_as_numbers :: "jsval \<Rightarrow> jsval \<Rightarrow> bool option" where
  "gt_as_numbers a b =
     (if a = Undefined \<or> b = Undefined then Some False
      else (case as_number a of
              None \<Rightarrow> None
            | Some x \<Rightarrow> (case as_number b of None \<Rightarrow> None | Some y \<Rightarrow> Some (num_gt x y))))"

definition js_gt :: "jsval \<Rightarrow> jsval \<Rightarrow> bool option" where
  "js_gt a b =
     (case a of
        Str x \<Rightarrow> (case b of Str y \<Rightarrow> Some (str_less y x) | _ \<Rightarrow> gt_as_numbers a b)
      | _ \<Rightarrow> gt_as_numbers a b)"

text \<open>The comparator of the handler; \<open>Inl\<close> is how it ends without a number.\<close>

definition comparator :: "string \<Rightarrow> string option \<Rightarrow> genre \<Rightarrow> genre \<Rightarrow> error + int" where
  "comparator sortKey order a b =
     (let aVal = field sortKey a; bVal = field sortKey b;
          lowered =
            (case aVal of
               Str sa \<Rightarrow>
                 (case bVal of
                    Str sb \<Rightarrow> Inr (Str (toLowerCase sa), Str (toLowerCase sb))
                  | _ \<Rightarrow> Inl InternalError)
             | _ \<Rightarrow> Inr (aVal, bVal))
      in case lowered of
           Inl e \<Rightarrow> Inl e
         | Inr (aVal, bVal) \<Rightarrow>
             if order = Some ''desc''
             then (case js_gt bVal aVal of
                     None \<Rightarrow> Inl OutsideModel | Some r \<Rightarrow> Inr (if r then 1 else - 1))
             else (case js_gt aVal bVal of
                     None \<Rightarrow> Inl OutsideModel | Some r \<Rightarrow> Inr (if r then 1 else - 1)))"

text \<open>
  \<^verbatim>\<open>Array.prototype.sort\<close> is the engine's. It is modelled as V8 sorts an array
  of fewer than 64 elements: the array is one run. \<^verbatim>\<open>CountAndMakeRun\<close> compares
  each element with the one before it, as long as the elements descend strictly or,
  when the first two do not descend, as long as they do not descend, and reverses a
  descending run. \<^verbatim>\<open>BinaryInsertionSort\<close> then takes the remaining elements from
  the left and puts each into the sorted part at the place a binary search finds.
  The comparator is called as \<^verbatim>\<open>comparefn(x, y)\<close>, and a throw of it ends the sort.
  An array of 64 elements and more is merged from several runs, which is outside this
  model.
\<close>

fun count_run :: "('a \<Rightarrow> 'a \<Rightarrow> error + int) \<Rightarrow> bool \<Rightarrow> 'a \<Rightarrow> 'a list \<Rightarrow> error + nat" where
  "count_run cmp isDescending previousElement [] = Inr 0"
| "count_run cmp isDescending previousElement (currentElement # rest) =
     (case cmp currentElement previousElement of
        Inl e \<Rightarrow> Inl e
      | Inr order \<Rightarrow>
          if (if isDescending then order \<ge> 0 else order < 0) then Inr 0
          else (case count_run cmp isDescending currentElement rest of
                  Inl e \<Rightarrow> Inl e
                | Inr n \<Rightarrow> Inr (Suc n)))"

definition CountAndMakeRun :: "('a \<Rightarrow> 'a \<Rightarrow> error + int) \<Rightarrow> 'a list \<Rightarrow> error + nat \<times> 'a list" where
  "CountAndMakeRun cmp workArray =
     (case workArray of
        elementHigh # elementLow # rest \<Rightarrow>
          (case cmp elementLow elementHigh of
             Inl e \<Rightarrow> Inl e
           | Inr order \<Rightarrow>
               (let isDescending = order < 0
                in case count_run cmp isDescending elementLow rest of
                     Inl e \<Rightarrow> Inl e
                   | Inr n \<Rightarrow>
                       (let runLength = 2 + n
                        in Inr (runLength,
                                if isDescending
                                then rev (take runLength workArray) @ drop runLength workArray
                                else workArray))))
      | _ \<Rightarrow> Inr (length workArray, workArray))"

function binary_search :: "('a \<Rightarrow> 'a \<Rightarrow> error + int) \<Rightarrow> 'a \<Rightarrow> 'a list \<Rightarrow> nat \<Rightarrow> nat \<Rightarrow> error + nat" where
  "binary_search cmp pivot workArray left right =
     (if left < right
      then (let mid = left + (right - left) div 2
            in case cmp pivot (workArray ! mid) of
                 Inl e \<Rightarrow> Inl e
               | Inr order \<Rightarrow>
                   if order < 0 then binary_search cmp pivot workArray left mid
                   else binary_search cmp pivot workArray (mid + 1) right)
      else Inr left)"
  by pat_completeness auto
termination
  by (relation "measure (\<lambda>(cmp, pivot, workArray, left, right). right - left)") auto

declare binary_search.simps [simp del]

fun BinaryInsertionSort :: "('a \<Rightarrow> 'a \<Rightarrow> error + int) \<Rightarrow> 'a list \<Rightarrow> 'a list \<Rightarrow> error + 'a list" where
  "BinaryInsertionSort cmp sortedPart [] = Inr sortedPart"
| "BinaryInsertionSort cmp sortedPart (pivot # rest) =
     (case binary_search cmp pivot sortedPart 0 (length sortedPart) of
        Inl e \<Rightarrow> Inl e
      | Inr left \<Rightarrow>
          BinaryInsertionSort cmp (take left sortedPart @ pivot # drop left sortedPart) rest)"

definition array_sort :: "('a \<Rightarrow> 'a \<Rightarrow> error + int) \<Rightarrow> 'a list \<Rightarrow> error + 'a list" where
  "array_sort cmp xs =
     (if length xs < 2 then Inr xs
      else if 64 \<le> length xs then Inl OutsideModel
      else (case CountAndMakeRun cmp xs of
              Inl e \<Rightarrow> Inl e
            | Inr (runLength, workArray) \<Rightarrow>
                BinaryInsertionSort cmp (take runLength workArray) (drop runLength workArray)))"

definition list_genres :: "store \<Rightarrow> query \<Rightarrow> error + genre list" where
  "list_genres st q =
     (let result = genres st;
          result =
            (case q_search q of
               None \<Rightarrow> result
             | Some search \<Rightarrow>
                 if search = [] then result
                 else filter (\<lambda>g. str_includes (toLowerCase (gname g)) (toLowerCase search) \<or>
                                   str_includes (toLowerCase (gdescription g)) (toLowerCase search))
                             result)
      in case q_sort q of
           None \<Rightarrow> Inr result
         | Some sortKey \<Rightarrow>
             if sortKey = [] then Inr result
             else array_sort (comparator sortKey (q_order q)) result)"

section \<open>Runs of the service\<close>

text \<open>
  A request with the clock readings its handler takes, the answer of each kind of
  request, and the run of a sequence of requests from a store.
\<close>

datatype request =
    List query
  | Get string
  | Create body timestamp timestamp
  | Replace string body timestamp
  | Patch string body timestamp
  | Delete string
  | BulkDelete jsval

datatype response =
    Listed "error + genre list"
  | Got "error + genre"
  | Created "error + genre"
  | Replaced "error + genre"
  | Patched "error + genre"
  | Deleted "error + genre"
  | BulkDeleted "error + bulk_result"

fun handle :: "request \<Rightarrow> store \<Rightarrow> response \<times> store" where
  "handle (List q) st = (Listed (list_genres st q), st)"
| "handle (Get i) st = (Got (get_genre st i), st)"
| "handle (Create b t1 t2) st = (case create_genre st b t1 t2 of (r, st') \<Rightarrow> (Created r, st'))"
| "handle (Replace i b now) st =
     (case replace_genre st i b now of (r, st') \<Rightarrow> (Replaced r, st'))"
| "handle (Patch i b now) st = (case patch_genre st i b now of (r, st') \<Rightarrow> (Patched r, st'))"
| "handle (Delete i) st = (case delete_genre st i of (r, st') \<Rightarrow> (Deleted r, st'))"
| "handle (BulkDelete ids) st = (case bulkDelete st ids of (r, st') \<Rightarrow> (BulkDeleted r, st'))"

fun run :: "request list \<Rightarrow> store \<Rightarrow> response list \<times> store" where
  "run [] st = ([], st)"
| "run (r # rs) st =
     (case handle r st of (a, st') \<Rightarrow> (case run rs st' of (as, st'') \<Rightarrow> (a # as, st'')))"

text \<open>The records that the successful creates of a run returned.\<close>

fun created :: "response list \<Rightarrow> genre list" where
  "created [] = []"
| "created (Created (Inr g) # as) = g # created as"
| "created (a # as) = created as"


section \<open>The invariant of the store\<close>

text \<open>The ids of the genres are pairwise different and below the counter.\<close>

definition store_inv :: "store \<Rightarrow> bool" where
  "store_inv st =
     (distinct (map gid (genres st)) \<and> list_all (\<lambda>g. gid g < nextId st) (genres st))"

section \<open>Facts about the helpers\<close>

lemma findIndex_Some:
  "findIndex P xs = Some k \<Longrightarrow> k < length xs \<and> P (xs ! k) \<and> (\<forall>j<k. \<not> P (xs ! j))"
proof (induction xs arbitrary: k)
  case Nil
  then show ?case by simp
next
  case (Cons x xs)
  show ?case
  proof (cases "P x")
    case True
    with Cons.prems show ?thesis by simp
  next
    case False
    with Cons.prems obtain m where m: "findIndex P xs = Some m" "k = Suc m"
      by (auto split: option.splits)
    from Cons.IH [OF m(1)] False m(2) show ?thesis
      by (auto simp: nth_Cons split: nat.splits)
  qed
qed

lemma findIndex_None: "findIndex P xs = None \<longleftrightarrow> (\<forall>x\<in>set xs. \<not> P x)"
  by (induction xs) (auto split: option.splits)

lemma findIndex_find:
  "findIndex P xs = Some k \<Longrightarrow> find P xs = Some (xs ! k)"
  by (induction xs arbitrary: k) (auto split: option.splits if_splits)

lemma find_findIndex_None: "find P xs = None \<longleftrightarrow> findIndex P xs = None"
  by (auto simp: findIndex_None find_None_iff)

lemma too_short_Str: "0 < k \<Longrightarrow> too_short k (Str s) = Inr (length (trim s) < k)"
  by (cases "s = []") (simp_all add: too_short_def trim_def)


lemmas str_eval = is_ws_def code_def trim_def toLowerCase_def lower_char_def remove_ws_def
  parseInt_def is_digit_def digit_val_def digit_of_def char_of_def bit_Suc_0_iff


lemma validateGenre_Str:
  "validateGenre (Str n) (Str d) =
     Inr ((if length (trim n) < 2 then [''Name must be at least 2 characters long''] else []) @
          (if length (trim d) < 5 then [''Description must be at least 5 characters long'']
           else []))"
  by (simp add: validateGenre_def too_short_Str)

lemma find_not_None: "find P xs \<noteq> None \<longleftrightarrow> (\<exists>x\<in>set xs. P x)"
  by (auto simp: find_None_iff)

lemma find_is_None: "find P xs = None \<longleftrightarrow> (\<forall>x\<in>set xs. \<not> P x)"
  by (auto simp: find_None_iff)

lemma find_is_Some: "(\<exists>y. find P xs = Some y) \<longleftrightarrow> (\<exists>x\<in>set xs. P x)"
  using find_not_None [of P xs] by auto

lemma splice1_filter:
  "distinct (map f xs) \<Longrightarrow> k < length xs \<Longrightarrow> splice1 k xs = filter (\<lambda>h. f h \<noteq> f (xs ! k)) xs"
proof (induction xs arbitrary: k)
  case Nil
  then show ?case by simp
next
  case (Cons x xs)
  show ?case
  proof (cases k)
    case 0
    from Cons.prems have "f x \<notin> f ` set xs" by simp
    then have "\<forall>h\<in>set xs. f h \<noteq> f x" by (metis imageI)
    then have "filter (\<lambda>h. f h \<noteq> f x) xs = xs" by (simp add: filter_id_conv)
    with 0 show ?thesis by (simp add: splice1_def)
  next
    case (Suc m)
    with Cons.prems have m: "m < length xs" "distinct (map f xs)" by auto
    from m(1) have "xs ! m \<in> set xs" by simp
    with Cons.prems have "f x \<noteq> f (xs ! m)" by auto
    with Cons.IH [OF m(2) m(1)] Suc show ?thesis by (simp add: splice1_def)
  qed
qed

section \<open>The loop of the bulk delete in closed form\<close>

text \<open>
  When no element of the array throws, the loop ends with the store without the genres
  whose id an element parses to, with the records of those genres in the order of the
  first element that parses to their id, and with the other elements in their order.
\<close>

lemma bulk_loop_snoc:
  "bulk_loop (ids @ [i]) s =
     (case bulk_loop ids s of
        (Some e, s') \<Rightarrow> (Some e, s')
      | (None, s') \<Rightarrow> (case bulk_step i s' of Inl e \<Rightarrow> (Some e, s') | Inr s'' \<Rightarrow> (None, s'')))"
  by (induction ids arbitrary: s) (auto split: sum.splits)

lemma concat_upt_snoc:
  assumes "\<And>j. j < n \<Longrightarrow> f j = g j"
  shows "concat (map f [0..<Suc n]) = concat (map g [0..<n]) @ f n"
proof -
  have m: "map f [0..<n] = map g [0..<n]"
    by (rule map_cong [OF refl]) (simp add: assms)
  have "concat (map f [0..<Suc n]) = concat (map f [0..<n]) @ f n" by simp
  also have "\<dots> = concat (map g [0..<n]) @ f n" by (simp only: m)
  finally show ?thesis .
qed

lemma find_distinct_key:
  assumes "distinct (map f xs)" and "x \<in> set xs"
  shows "find (\<lambda>y. f y = f x) xs = Some x"
  using assms
proof (induction xs)
  case Nil
  then show ?case by simp
next
  case (Cons a xs)
  show ?case
  proof (cases "a = x")
    case True
    then show ?thesis by simp
  next
    case False
    with Cons.prems have x: "x \<in> set xs" by simp
    with Cons.prems(1) have "f a \<noteq> f x" by force
    with Cons.IH x Cons.prems(1) show ?thesis by simp
  qed
qed

lemma bulk_loop_closed:
  assumes d: "distinct (map gid gs)"
    and nt: "\<forall>i\<in>set ids. parseInt_value i \<noteq> Inl TypeError"
  shows "bulk_loop ids (gs, [], []) =
     (None,
      filter (\<lambda>g. Inr (Some (gid g)) \<notin> parseInt_value ` set ids) gs,
      concat (map (\<lambda>j. case find (\<lambda>g. Inr (Some (gid g)) = parseInt_value (ids ! j)) gs of
                          None \<Rightarrow> []
                        | Some g \<Rightarrow>
                            if parseInt_value (ids ! j) \<in> parseInt_value ` set (take j ids)
                            then [] else [g])
                  [0..<length ids]),
      concat (map (\<lambda>j. if find (\<lambda>g. Inr (Some (gid g)) = parseInt_value (ids ! j)) gs \<noteq> None \<and>
                           parseInt_value (ids ! j) \<notin> parseInt_value ` set (take j ids)
                        then [] else [ids ! j])
                  [0..<length ids]))"
  using nt
proof (induction ids rule: rev_induct)
  case Nil
  then show ?case by simp
next
  case (snoc i ids)
  let ?key = parseInt_value
  let ?found = "\<lambda>x. find (\<lambda>g. Inr (Some (gid g)) = ?key x) gs"
  let ?G = "\<lambda>ids. filter (\<lambda>g. Inr (Some (gid g)) \<notin> ?key ` set ids) gs"
  let ?Dj = "\<lambda>ids j. case ?found (ids ! j) of None \<Rightarrow> []
             | Some g \<Rightarrow> if ?key (ids ! j) \<in> ?key ` set (take j ids) then [] else [g]"
  let ?Nj = "\<lambda>ids j. if ?found (ids ! j) \<noteq> None \<and> ?key (ids ! j) \<notin> ?key ` set (take j ids)
             then [] else [ids ! j]"
  let ?D = "\<lambda>ids. concat (map (?Dj ids) [0..<length ids])"
  let ?N = "\<lambda>ids. concat (map (?Nj ids) [0..<length ids])"
  from snoc.prems have nt': "\<forall>i\<in>set ids. ?key i \<noteq> Inl TypeError" by simp
  from snoc.prems obtain n where n: "?key i = Inr n"
    by (cases "?key i") (auto, case_tac a, auto)
  have IH: "bulk_loop ids (gs, [], []) = (None, ?G ids, ?D ids, ?N ids)"
    by (rule snoc.IH [OF nt'])
  have "concat (map (?Dj (ids @ [i])) [0..<Suc (length ids)]) =
          ?D ids @ ?Dj (ids @ [i]) (length ids)"
    by (rule concat_upt_snoc) (simp add: nth_append split: option.splits)
  then have Dsn: "?D (ids @ [i]) = ?D ids @ ?Dj (ids @ [i]) (length ids)"
    by simp
  have "concat (map (?Nj (ids @ [i])) [0..<Suc (length ids)]) =
          ?N ids @ ?Nj (ids @ [i]) (length ids)"
    by (rule concat_upt_snoc) (simp add: nth_append split: option.splits)
  then have Nsn: "?N (ids @ [i]) = ?N ids @ ?Nj (ids @ [i]) (length ids)"
    by simp
  have Dlast: "?Dj (ids @ [i]) (length ids) =
      (case ?found i of None \<Rightarrow> [] | Some g \<Rightarrow> if ?key i \<in> ?key ` set ids then [] else [g])"
    by (simp split: option.splits)
  have Nlast: "?Nj (ids @ [i]) (length ids) =
      (if ?found i \<noteq> None \<and> ?key i \<notin> ?key ` set ids then [] else [i])"
    by simp
  have dG: "distinct (map gid (?G ids))" using d by (simp add: distinct_map_filter)
  show ?case
  proof (cases "\<exists>g\<in>set (?G ids). gid g = the n \<and> n \<noteq> None")
    case True
    then obtain g m where g: "g \<in> set (?G ids)" "gid g = m" and m: "n = Some m" by auto
    from g have g0: "g \<in> set gs" and fresh: "?key i \<notin> ?key ` set ids"
      using n m by auto
    have P: "(\<lambda>h. Inr (Some (gid h)) = ?key i) = (\<lambda>h. gid h = gid g)"
      using n m g(2) by auto
    have fnd: "?found i = Some g"
      unfolding P by (rule find_distinct_key [OF d g0])
    have ne: "?G ids \<noteq> []" using g(1) by (metis empty_iff list.set(1))
    obtain k where k: "findIndex (\<lambda>h. Some (gid h) = n) (?G ids) = Some k"
      using g m by (cases "findIndex (\<lambda>h. Some (gid h) = n) (?G ids)")
        (auto simp: findIndex_None)
    from findIndex_Some [OF k] have kl: "k < length (?G ids)"
      and kg: "Some (gid (?G ids ! k)) = n" by simp_all
    have kin: "?G ids ! k \<in> set (?G ids)" using kl by (rule nth_mem)
    have same: "?G ids ! k = g"
      using dG kin g(1) kg m g(2) by (auto simp: distinct_map inj_on_def)
    have sp: "splice1 k (?G ids) = filter (\<lambda>h. gid h \<noteq> gid g) (?G ids)"
      using splice1_filter [OF dG kl] same by simp
    have Gsn: "?G (ids @ [i]) = filter (\<lambda>h. gid h \<noteq> gid g) (?G ids)"
      using n m g(2) by (auto intro: filter_cong)
    have step: "bulk_step i (?G ids, ?D ids, ?N ids) = Inr (?G (ids @ [i]), ?D ids @ [g], ?N ids)"
      using ne by (simp only: bulk_step_def prod.case n sum.case k option.case sp same Gsn if_False)
    show ?thesis
      by (simp only: bulk_loop_snoc IH prod.case option.case step sum.case Dsn Nsn Dlast Nlast
          fnd fresh) simp
  next
    case False
    then have no: "\<forall>g\<in>set (?G ids). Some (gid g) \<noteq> n" by (cases n) auto
    have idx: "findIndex (\<lambda>h. Some (gid h) = n) (?G ids) = None"
      using no by (simp add: findIndex_None)
    have step: "bulk_step i (?G ids, ?D ids, ?N ids) = Inr (?G ids, ?D ids, ?N ids @ [i])"
      by (simp add: bulk_step_def n idx)
    have Gsn: "?G (ids @ [i]) = ?G ids"
      using no n by (auto intro!: filter_cong)
    have miss: "?found i = None \<or> ?key i \<in> ?key ` set ids"
    proof (rule ccontr)
      assume "\<not> ?thesis"
      then obtain g where f: "?found i = Some g" and fr: "?key i \<notin> ?key ` set ids" by auto
      from f have "g \<in> set gs" "Inr (Some (gid g)) = ?key i"
        by (auto simp: find_Some_iff in_set_conv_nth)
      with fr n have "g \<in> set (?G ids)" "Some (gid g) = n" by auto
      with no show False by blast
    qed
    have Dl: "(case ?found i of None \<Rightarrow> [] | Some g \<Rightarrow> if ?key i \<in> ?key ` set ids then [] else [g]) = []"
      using miss by (auto split: option.splits)
    have Nl: "(if ?found i \<noteq> None \<and> ?key i \<notin> ?key ` set ids then [] else [i]) = [i]"
      using miss by auto
    show ?thesis
      by (simp only: bulk_loop_snoc IH prod.case option.case step sum.case Dsn Nsn Dlast Nlast
          Dl Nl Gsn) simp
  qed
qed

section \<open>The invariant holds in every run\<close>

lemma store_inv_initial: "store_inv (initial t1 t2 t3 t4)"
  by (simp add: store_inv_def initial_def seed_def)

lemma map_gid_update:
  "k < length gs \<Longrightarrow> gid g = gid (gs ! k) \<Longrightarrow> map gid (gs[k := g]) = map gid gs"
  by (simp add: map_update list_update_same_conv)

lemma create_genre_shape:
  assumes "create_genre st b t1 t2 = (r, st')"
  shows "(case r of
            Inl e \<Rightarrow> st' = st
          | Inr g \<Rightarrow> gid g = nextId st \<and>
                     st' = \<lparr>genres = genres st @ [g], nextId = nextId st + 1\<rparr>)"
  using assms
  by (auto simp: create_genre_def getNextId_def Let_def
           split: sum.splits if_splits jsval.splits option.splits)

lemma create_genre_inv:
  assumes "create_genre st b t1 t2 = (r, st')" and "store_inv st"
  shows "store_inv st' \<and> nextId st \<le> nextId st' \<and>
         (\<forall>g. r = Inr g \<longrightarrow> gid g = nextId st \<and> nextId st < nextId st')"
proof (cases r)
  case (Inl e)
  with create_genre_shape [OF assms(1)] assms(2) show ?thesis by simp
next
  case (Inr g)
  with create_genre_shape [OF assms(1)] have g: "gid g = nextId st"
    and st': "st' = \<lparr>genres = genres st @ [g], nextId = nextId st + 1\<rparr>"
    by simp_all
  from assms(2) have d: "distinct (map gid (genres st))"
    and b: "\<forall>h\<in>set (genres st). gid h < nextId st"
    by (simp_all add: store_inv_def list_all_iff)
  from b g have "gid g \<notin> gid ` set (genres st)" by force
  moreover from b have "\<forall>h\<in>set (genres st). gid h < nextId st + 1" by force
  ultimately have "store_inv st'"
    using d g by (simp add: st' store_inv_def list_all_iff)
  with Inr g st' show ?thesis by simp
qed

lemma update_inv:
  assumes "store_inv st" and "k < length (genres st)" and "gid g = gid (genres st ! k)"
  shows "store_inv (st\<lparr>genres := (genres st)[k := g]\<rparr>)"
proof -
  have m: "map gid ((genres st)[k := g]) = map gid (genres st)"
    by (rule map_gid_update [OF assms(2,3)])
  have "list_all (\<lambda>g. gid g < nextId st) ((genres st)[k := g])
          = list_all (\<lambda>i. i < nextId st) (map gid ((genres st)[k := g]))"
    by (simp only: list_all_iff) simp
  also have "\<dots> = list_all (\<lambda>g. gid g < nextId st) (genres st)"
    by (simp only: m list_all_iff) simp
  finally show ?thesis using assms(1) by (simp add: store_inv_def m)
qed

lemma replace_genre_inv:
  assumes "replace_genre st i b now = (r, st')" and "store_inv st"
  shows "store_inv st' \<and> nextId st' = nextId st"
proof (cases "findIndex (\<lambda>g. Some (gid g) = parseInt i) (genres st)")
  case None
  with assms show ?thesis by (simp add: replace_genre_def)
next
  case (Some k)
  then have k: "k < length (genres st)" by (simp add: findIndex_Some)
  from assms Some have "st' = st \<or> (case r of Inl e \<Rightarrow> False | Inr g \<Rightarrow>
      gid g = gid (genres st ! k) \<and> st' = st\<lparr>genres := (genres st)[k := g]\<rparr>)"
    by (auto simp: replace_genre_def Let_def
             split: sum.splits if_splits jsval.splits option.splits)
  with assms(2) k show ?thesis by (auto simp: update_inv split: sum.splits)
qed

lemma patch_genre_inv:
  assumes "patch_genre st i b now = (r, st')" and "store_inv st"
  shows "store_inv st' \<and> nextId st' = nextId st"
proof (cases "findIndex (\<lambda>g. Some (gid g) = parseInt i) (genres st)")
  case None
  with assms show ?thesis by (simp add: patch_genre_def)
next
  case (Some k)
  then have k: "k < length (genres st)" by (simp add: findIndex_Some)
  from assms Some have "st' = st \<or> (case r of Inl e \<Rightarrow> False | Inr g \<Rightarrow>
      gid g = gid (genres st ! k) \<and> st' = st\<lparr>genres := (genres st)[k := g]\<rparr>)"
    by (auto simp: patch_genre_def Let_def apply_updates_def
             split: sum.splits if_splits option.splits)
  with assms(2) k show ?thesis by (auto simp: update_inv split: sum.splits)
qed

lemma filter_inv:
  assumes "store_inv st"
  shows "store_inv (st\<lparr>genres := filter P (genres st)\<rparr>)"
  using assms by (simp add: store_inv_def distinct_map_filter list_all_iff)

lemma delete_genre_inv:
  assumes "delete_genre st i = (r, st')" and "store_inv st"
  shows "store_inv st' \<and> nextId st' = nextId st"
proof (cases "findIndex (\<lambda>g. Some (gid g) = parseInt i) (genres st)")
  case None
  with assms show ?thesis by (simp add: delete_genre_def)
next
  case (Some k)
  then have k: "k < length (genres st)" by (simp add: findIndex_Some)
  from assms(2) have d: "distinct (map gid (genres st))" by (simp add: store_inv_def)
  from assms(1) Some have "st' = st\<lparr>genres := splice1 k (genres st)\<rparr>"
    by (auto simp: delete_genre_def)
  with filter_inv [OF assms(2)] show ?thesis
    by (simp add: splice1_filter [OF d k])
qed

lemma bulk_loop_filter:
  assumes "bulk_loop ids (gs, D, N) = (r, gs', D', N')" and "distinct (map gid gs)"
  shows "\<exists>P. gs' = filter P gs"
  using assms
proof (induction ids arbitrary: gs D N)
  case Nil
  then have "gs' = filter (\<lambda>g. True) gs" by simp
  then show ?case by blast
next
  case (Cons i ids)
  show ?case
  proof (cases "bulk_step i (gs, D, N)")
    case (Inl e)
    with Cons.prems(1) have "gs' = filter (\<lambda>g. True) gs" by simp
    then show ?thesis by blast
  next
    case (Inr s1)
    obtain gs1 D1 N1 where s1: "s1 = (gs1, D1, N1)" by (cases s1)
    have "\<exists>Q. gs1 = filter Q gs"
    proof (cases "findIndex (\<lambda>g. Some (gid g) = projr (parseInt_value i)) gs")
      case None
      with Inr s1 have "gs1 = filter (\<lambda>g. True) gs"
        by (auto simp: bulk_step_def split: if_splits sum.splits)
      then show ?thesis by blast
    next
      case (Some k)
      from findIndex_Some [OF Some] have k: "k < length gs" by simp
      from Inr s1 Some have "gs1 = gs \<or> gs1 = splice1 k gs"
        by (auto simp: bulk_step_def split: if_splits sum.splits)
      then show ?thesis
      proof
        assume "gs1 = gs"
        then have "gs1 = filter (\<lambda>g. True) gs" by simp
        then show ?thesis by blast
      next
        assume "gs1 = splice1 k gs"
        with splice1_filter [OF Cons.prems(2) k] show ?thesis by auto
      qed
    qed
    then obtain Q where Q: "gs1 = filter Q gs" by blast
    then have d1: "distinct (map gid gs1)"
      using Cons.prems(2) by (simp add: distinct_map_filter)
    from Cons.prems(1) Inr s1 have "bulk_loop ids (gs1, D1, N1) = (r, gs', D', N')" by simp
    from Cons.IH [OF this d1] obtain P where "gs' = filter P gs1" by blast
    with Q have "gs' = filter (\<lambda>g. Q g \<and> P g) gs" by simp
    then show ?thesis by blast
  qed
qed

lemma bulkDelete_shape:
  assumes "bulkDelete st ids = (r, st')" and "store_inv st"
  shows "\<exists>P. st' = st\<lparr>genres := filter P (genres st)\<rparr>"
proof -
  from assms(2) have d: "distinct (map gid (genres st))" by (simp add: store_inv_def)
  show ?thesis
  proof (cases "\<exists>xs. ids = Arr xs \<and> xs \<noteq> []")
    case True
    then obtain xs where xs: "ids = Arr xs" "xs \<noteq> []" by blast
    obtain e gs' D' N' where l: "bulk_loop xs (genres st, [], []) = (e, gs', D', N')"
      by (cases "bulk_loop xs (genres st, [], [])") auto
    from bulk_loop_filter [OF l d] obtain P where P: "gs' = filter P (genres st)" by blast
    from assms(1) xs l have "st' = st\<lparr>genres := gs'\<rparr>"
      by (cases e) (auto simp: bulkDelete_def)
    with P show ?thesis by blast
  next
    case False
    with assms(1) have "st' = st\<lparr>genres := filter (\<lambda>g. True) (genres st)\<rparr>"
      by (auto simp: bulkDelete_def split: jsval.splits if_splits)
    then show ?thesis by blast
  qed
qed

lemma bulkDelete_inv:
  assumes "bulkDelete st ids = (r, st')" and "store_inv st"
  shows "store_inv st' \<and> nextId st' = nextId st"
proof -
  from bulkDelete_shape [OF assms] obtain P where "st' = st\<lparr>genres := filter P (genres st)\<rparr>"
    by blast
  with filter_inv [OF assms(2)] show ?thesis by simp
qed


lemma handle_inv:
  assumes "handle r st = (a, st')" and "store_inv st"
  shows "store_inv st' \<and> nextId st \<le> nextId st' \<and>
         (\<forall>g. a = Created (Inr g) \<longrightarrow> gid g = nextId st \<and> nextId st < nextId st')"
proof (cases r)
  case (Create b t1 t2)
  with assms show ?thesis
    using create_genre_inv [of st b t1 t2 _ st'] by (auto split: prod.splits)
next
  case (Replace i b now)
  with assms show ?thesis
    using replace_genre_inv [of st i b now _ st'] by (auto split: prod.splits)
next
  case (Patch i b now)
  with assms show ?thesis
    using patch_genre_inv [of st i b now _ st'] by (auto split: prod.splits)
next
  case (Delete i)
  with assms show ?thesis
    using delete_genre_inv [of st i _ st'] by (auto split: prod.splits)
next
  case (BulkDelete ids)
  with assms show ?thesis
    using bulkDelete_inv [of st ids _ st'] by (auto split: prod.splits)
qed (use assms in auto)

lemma created_Cons:
  "g \<in> set (created (a # as)) \<longleftrightarrow> a = Created (Inr g) \<or> g \<in> set (created as)"
proof (cases a)
  case (Created r)
  then show ?thesis by (cases r) auto
qed auto

lemma run_inv:
  assumes "run rs st = (as, st')" and "store_inv st"
  shows "store_inv st' \<and> nextId st \<le> nextId st' \<and>
         (\<forall>g\<in>set (created as). nextId st \<le> gid g \<and> gid g < nextId st')"
  using assms
proof (induction rs arbitrary: st as)
  case Nil
  then show ?case by simp
next
  case (Cons r rs)
  obtain a st1 where h: "handle r st = (a, st1)" by (cases "handle r st")
  with Cons.prems(1) obtain as' where t: "run rs st1 = (as', st')" and eq: "as = a # as'"
    by (auto split: prod.splits)
  from handle_inv [OF h Cons.prems(2)] have
    i1: "store_inv st1" and m1: "nextId st \<le> nextId st1"
    and c1: "\<forall>g. a = Created (Inr g) \<longrightarrow> gid g = nextId st \<and> nextId st < nextId st1"
    by simp_all
  from Cons.IH [OF t i1] have
    i2: "store_inv st'" and m2: "nextId st1 \<le> nextId st'"
    and c2: "\<forall>g\<in>set (created as'). nextId st1 \<le> gid g \<and> gid g < nextId st'"
    by simp_all
  have "\<forall>g\<in>set (created (a # as')). nextId st \<le> gid g \<and> gid g < nextId st'"
  proof
    fix g assume g: "g \<in> set (created (a # as'))"
    then consider "a = Created (Inr g)" | "g \<in> set (created as')"
      by (auto simp only: created_Cons)
    then show "nextId st \<le> gid g \<and> gid g < nextId st'"
    proof cases
      case 1
      with c1 m2 show ?thesis by auto
    next
      case 2
      with c2 m1 show ?thesis by force
    qed
  qed
  with i2 m1 m2 eq show ?case by simp
qed

section \<open>Where the genres of a store come from\<close>

text \<open>
  A genre of the store after a request has the id and the \<^verbatim>\<open>createdAt\<close> of a genre
  of the store before it, or it was created by the request and has an id from the
  counter.
\<close>

lemma update_shape_origin:
  assumes "k < length gs" and "gid g = gid (gs ! k)" and "createdAt g = createdAt (gs ! k)"
    and "g' \<in> set (gs[k := g])"
  shows "\<exists>h\<in>set gs. gid h = gid g' \<and> createdAt h = createdAt g'"
proof -
  from assms(4) have "g' = g \<or> g' \<in> set gs"
    using set_update_subset_insert [of gs k g] by auto
  then show ?thesis
  proof
    assume "g' = g"
    with assms(1-3) show ?thesis by (auto intro: bexI [of _ "gs ! k"])
  next
    assume "g' \<in> set gs"
    then show ?thesis by auto
  qed
qed

lemma replace_genre_shape:
  assumes "replace_genre st i b now = (r, st')"
  shows "st' = st \<or>
         (\<exists>k<length (genres st).
            case r of Inl e \<Rightarrow> False
            | Inr g \<Rightarrow> gid g = gid (genres st ! k) \<and> createdAt g = createdAt (genres st ! k) \<and>
                       st' = st\<lparr>genres := (genres st)[k := g]\<rparr>)"
proof (cases "findIndex (\<lambda>g. Some (gid g) = parseInt i) (genres st)")
  case None
  with assms show ?thesis by (simp add: replace_genre_def)
next
  case (Some k)
  then have k: "k < length (genres st)" by (simp add: findIndex_Some)
  from assms Some have "st' = st \<or> (case r of Inl e \<Rightarrow> False | Inr g \<Rightarrow>
      gid g = gid (genres st ! k) \<and> createdAt g = createdAt (genres st ! k) \<and>
      st' = st\<lparr>genres := (genres st)[k := g]\<rparr>)"
    by (auto simp: replace_genre_def Let_def
             split: sum.splits if_splits jsval.splits option.splits)
  with k show ?thesis by blast
qed

lemma patch_genre_shape:
  assumes "patch_genre st i b now = (r, st')"
  shows "st' = st \<or>
         (\<exists>k<length (genres st).
            case r of Inl e \<Rightarrow> False
            | Inr g \<Rightarrow> gid g = gid (genres st ! k) \<and> createdAt g = createdAt (genres st ! k) \<and>
                       st' = st\<lparr>genres := (genres st)[k := g]\<rparr>)"
proof (cases "findIndex (\<lambda>g. Some (gid g) = parseInt i) (genres st)")
  case None
  with assms show ?thesis by (simp add: patch_genre_def)
next
  case (Some k)
  then have k: "k < length (genres st)" by (simp add: findIndex_Some)
  from assms Some have "st' = st \<or> (case r of Inl e \<Rightarrow> False | Inr g \<Rightarrow>
      gid g = gid (genres st ! k) \<and> createdAt g = createdAt (genres st ! k) \<and>
      st' = st\<lparr>genres := (genres st)[k := g]\<rparr>)"
    by (auto simp: patch_genre_def Let_def apply_updates_def
             split: sum.splits if_splits option.splits)
  with k show ?thesis by blast
qed

lemma delete_genre_shape:
  assumes "delete_genre st i = (r, st')" and "store_inv st"
  shows "\<exists>P. st' = st\<lparr>genres := filter P (genres st)\<rparr>"
proof (cases "findIndex (\<lambda>g. Some (gid g) = parseInt i) (genres st)")
  case None
  with assms have "st' = st\<lparr>genres := filter (\<lambda>g. True) (genres st)\<rparr>"
    by (simp add: delete_genre_def)
  then show ?thesis by blast
next
  case (Some k)
  then have k: "k < length (genres st)" by (simp add: findIndex_Some)
  from assms(2) have d: "distinct (map gid (genres st))" by (simp add: store_inv_def)
  from assms(1) Some have "st' = st\<lparr>genres := splice1 k (genres st)\<rparr>"
    by (auto simp: delete_genre_def)
  then have "st' = st\<lparr>genres := filter (\<lambda>h. gid h \<noteq> gid (genres st ! k)) (genres st)\<rparr>"
    by (simp add: splice1_filter [OF d k])
  then show ?thesis by blast
qed

lemma updated_store_origin:
  assumes "st' = st \<or>
         (\<exists>k<length (genres st).
            case r of Inl e \<Rightarrow> False
            | Inr g \<Rightarrow> gid g = gid (genres st ! k) \<and> createdAt g = createdAt (genres st ! k) \<and>
                       st' = st\<lparr>genres := (genres st)[k := g]\<rparr>)"
    and "g' \<in> set (genres st')"
  shows "\<exists>h\<in>set (genres st). gid h = gid g' \<and> createdAt h = createdAt g'"
  using assms(1)
proof
  assume "st' = st"
  with assms(2) show ?thesis by auto
next
  assume "\<exists>k<length (genres st).
            case r of Inl e \<Rightarrow> False
            | Inr g \<Rightarrow> gid g = gid (genres st ! k) \<and> createdAt g = createdAt (genres st ! k) \<and>
                       st' = st\<lparr>genres := (genres st)[k := g]\<rparr>"
  then obtain k g where k: "k < length (genres st)" and r: "r = Inr g"
    and g: "gid g = gid (genres st ! k)" "createdAt g = createdAt (genres st ! k)"
    and st': "st' = st\<lparr>genres := (genres st)[k := g]\<rparr>"
    by (cases r) auto
  from assms(2) st' have "g' \<in> set ((genres st)[k := g])" by simp
  from update_shape_origin [OF k g this] show ?thesis .
qed

lemma handle_origin:
  assumes "handle r st = (a, st')" and "store_inv st" and "g' \<in> set (genres st')"
  shows "(\<exists>h\<in>set (genres st). gid h = gid g' \<and> createdAt h = createdAt g') \<or>
         nextId st \<le> gid g'"
proof (cases r)
  case (List q)
  with assms show ?thesis by auto
next
  case (Get i)
  with assms show ?thesis by auto
next
  case (Create b t1 t2)
  with assms(1) obtain x where c: "create_genre st b t1 t2 = (x, st')"
    by (auto split: prod.splits)
  show ?thesis
  proof (cases x)
    case (Inl e)
    with create_genre_shape [OF c] assms(3) show ?thesis by auto
  next
    case (Inr g)
    with create_genre_shape [OF c] assms(3) show ?thesis by auto
  qed
next
  case (Replace i b now)
  with assms(1) obtain x where c: "replace_genre st i b now = (x, st')"
    by (auto split: prod.splits)
  from updated_store_origin [OF replace_genre_shape [OF c] assms(3)] show ?thesis by simp
next
  case (Patch i b now)
  with assms(1) obtain x where c: "patch_genre st i b now = (x, st')"
    by (auto split: prod.splits)
  from updated_store_origin [OF patch_genre_shape [OF c] assms(3)] show ?thesis by simp
next
  case (Delete i)
  with assms(1) obtain x where c: "delete_genre st i = (x, st')"
    by (auto split: prod.splits)
  from delete_genre_shape [OF c assms(2)] assms(3) show ?thesis by auto
next
  case (BulkDelete ids)
  with assms(1) obtain x where c: "bulkDelete st ids = (x, st')"
    by (auto split: prod.splits)
  from bulkDelete_shape [OF c assms(2)] assms(3) show ?thesis by auto
qed

lemma run_origin:
  assumes "run rs st = (as, st')" and "store_inv st" and "g' \<in> set (genres st')"
  shows "(\<exists>h\<in>set (genres st). gid h = gid g' \<and> createdAt h = createdAt g') \<or>
         nextId st \<le> gid g'"
  using assms
proof (induction rs arbitrary: st as)
  case Nil
  then show ?case by auto
next
  case (Cons r rs)
  obtain a st1 where h: "handle r st = (a, st1)" by (cases "handle r st")
  with Cons.prems(1) obtain as' where t: "run rs st1 = (as', st')"
    by (auto split: prod.splits)
  from handle_inv [OF h Cons.prems(2)] have i1: "store_inv st1"
    and m1: "nextId st \<le> nextId st1" by simp_all
  from Cons.IH [OF t i1 Cons.prems(3)] show ?case
  proof
    assume "\<exists>h\<in>set (genres st1). gid h = gid g' \<and> createdAt h = createdAt g'"
    then obtain g1 where g1: "g1 \<in> set (genres st1)" "gid g1 = gid g'"
      "createdAt g1 = createdAt g'" by blast
    from handle_origin [OF h Cons.prems(2) g1(1)] g1(2,3) show ?thesis by auto
  next
    assume "nextId st1 \<le> gid g'"
    with m1 show ?thesis by simp
  qed
qed

text \<open>
  A genre keeps its \<^verbatim>\<open>createdAt\<close> for as long as it is in the store: a genre of a
  later store with the id of a genre of an earlier store has the same \<^verbatim>\<open>createdAt\<close>.
\<close>

lemma createdAt_never_changes:
  assumes "run rs st = (as, st')" and "store_inv st"
    and "g \<in> set (genres st)" and "g' \<in> set (genres st')" and "gid g' = gid g"
  shows "createdAt g' = createdAt g"
proof -
  from assms(2) have d: "distinct (map gid (genres st))"
    and b: "\<forall>h\<in>set (genres st). gid h < nextId st"
    by (simp_all add: store_inv_def list_all_iff)
  from run_origin [OF assms(1,2,4)] show ?thesis
  proof
    assume "\<exists>h\<in>set (genres st). gid h = gid g' \<and> createdAt h = createdAt g'"
    then obtain h where h: "h \<in> set (genres st)" "gid h = gid g'" "createdAt h = createdAt g'"
      by blast
    from d h(1) assms(3) h(2) assms(5) have "h = g"
      by (simp add: distinct_map inj_on_def)
    with h(3) show ?thesis by simp
  next
    assume "nextId st \<le> gid g'"
    with b assms(3,5) show ?thesis by force
  qed
qed

section \<open>Sorting four records by name\<close>

text \<open>
  For the sort key \<^verbatim>\<open>name\<close> and the order \<^verbatim>\<open>desc\<close> the comparator puts a
  record behind another exactly when its lower-cased name is the smaller one. A list of
  length four over four different elements is one of their 24 arrangements, and the
  sort brings each of them into the order of the comparator.
\<close>

lemma comparator_name_desc:
  "comparator ''name'' (Some ''desc'') a b =
     Inr (if str_less (toLowerCase (gname a)) (toLowerCase (gname b)) then 1 else - 1)"
  by (simp add: comparator_def field_def js_gt_def)

lemma arrangements_tail:
  assumes "length xs = Suc n" and "set xs = insert a A" and "card (insert a A) = Suc n"
    and "hd xs = a"
  shows "\<exists>ys. xs = a # ys \<and> length ys = n \<and> set ys = A - {a}"
proof -
  from assms(1,4) obtain ys where xs: "xs = a # ys" "length ys = n"
    by (cases xs) auto
  from assms(1,2,3) have "distinct xs" by (simp add: card_distinct)
  with xs have "a \<notin> set ys" by simp
  with assms(2) xs have "set ys = A - {a}" by auto
  with xs show ?thesis by simp
qed

lemma arrangements_of_two:
  assumes "a \<noteq> b" and "length xs = 2" and "set xs = {a, b}"
  shows "xs \<in> {[a, b], [b, a]}"
proof -
  from assms(2) obtain w x where xs: "xs = [w, x]"
    by (auto simp: length_Suc_conv numeral_eq_Suc)
  with assms(1,3) show ?thesis by (auto simp: doubleton_eq_iff)
qed

lemma arrangements_of_three:
  assumes "distinct [a, b, c]" and "length xs = 3" and "set xs = {a, b, c}"
  shows "xs \<in> {[a, b, c], [a, c, b], [b, a, c], [b, c, a], [c, a, b], [c, b, a]}"
proof -
  from assms(2) have ne: "xs \<noteq> []" by auto
  with assms(3) have "hd xs \<in> {a, b, c}" using hd_in_set by blast
  then consider "hd xs = a" | "hd xs = b" | "hd xs = c" by blast
  then show ?thesis
  proof cases
    case 1
    from arrangements_tail [of xs 2 a "{b, c}"] assms 1
    obtain ys where "xs = a # ys" "length ys = 2" "set ys = {b, c}" by auto
    with arrangements_of_two [of b c ys] assms(1) show ?thesis by auto
  next
    case 2
    have e: "{a, b, c} = insert b {a, c}" by auto
    from arrangements_tail [of xs 2 b "{a, c}"] assms 2 e
    obtain ys where "xs = b # ys" "length ys = 2" "set ys = {a, c}" by auto
    with arrangements_of_two [of a c ys] assms(1) show ?thesis by auto
  next
    case 3
    have e: "{a, b, c} = insert c {a, b}" by auto
    from arrangements_tail [of xs 2 c "{a, b}"] assms 3 e
    obtain ys where "xs = c # ys" "length ys = 2" "set ys = {a, b}" by auto
    with arrangements_of_two [of a b ys] assms(1) show ?thesis by auto
  qed
qed

lemma arrangements_of_four:
  assumes "distinct [a, b, c, d]" and "length xs = 4" and "set xs = {a, b, c, d}"
  shows "xs \<in> {[a, b, c, d], [a, b, d, c], [a, c, b, d], [a, c, d, b], [a, d, b, c], [a, d, c, b],
               [b, a, c, d], [b, a, d, c], [b, c, a, d], [b, c, d, a], [b, d, a, c], [b, d, c, a],
               [c, a, b, d], [c, a, d, b], [c, b, a, d], [c, b, d, a], [c, d, a, b], [c, d, b, a],
               [d, a, b, c], [d, a, c, b], [d, b, a, c], [d, b, c, a], [d, c, a, b], [d, c, b, a]}"
proof -
  from assms(2) have ne: "xs \<noteq> []" by auto
  with assms(3) have "hd xs \<in> {a, b, c, d}" using hd_in_set by blast
  then consider "hd xs = a" | "hd xs = b" | "hd xs = c" | "hd xs = d" by blast
  then show ?thesis
  proof cases
    case 1
    from arrangements_tail [of xs 3 a "{b, c, d}"] assms 1
    obtain ys where "xs = a # ys" "length ys = 3" "set ys = {b, c, d}" by auto
    with arrangements_of_three [of b c d ys] assms(1) show ?thesis by auto
  next
    case 2
    have e: "{a, b, c, d} = insert b {a, c, d}" by auto
    from arrangements_tail [of xs 3 b "{a, c, d}"] assms 2 e
    obtain ys where "xs = b # ys" "length ys = 3" "set ys = {a, c, d}" by auto
    with arrangements_of_three [of a c d ys] assms(1) show ?thesis by auto
  next
    case 3
    have e: "{a, b, c, d} = insert c {a, b, d}" by auto
    from arrangements_tail [of xs 3 c "{a, b, d}"] assms 3 e
    obtain ys where "xs = c # ys" "length ys = 3" "set ys = {a, b, d}" by auto
    with arrangements_of_three [of a b d ys] assms(1) show ?thesis by auto
  next
    case 4
    have e: "{a, b, c, d} = insert d {a, b, c}" by auto
    from arrangements_tail [of xs 3 d "{a, b, c}"] assms 4 e
    obtain ys where "xs = d # ys" "length ys = 3" "set ys = {a, b, c}" by auto
    with arrangements_of_three [of a b c ys] assms(1) show ?thesis by auto
  qed
qed

lemma sort_four_descending:
  assumes "cmp a b = Inr 1" "cmp a c = Inr 1" "cmp a d = Inr 1"
    "cmp b c = Inr 1" "cmp b d = Inr 1" "cmp c d = Inr 1"
    "cmp b a = Inr (- 1)" "cmp c a = Inr (- 1)" "cmp d a = Inr (- 1)"
    "cmp c b = Inr (- 1)" "cmp d b = Inr (- 1)" "cmp d c = Inr (- 1)"
    and "xs \<in> {[a, b, c, d], [a, b, d, c], [a, c, b, d], [a, c, d, b], [a, d, b, c], [a, d, c, b],
               [b, a, c, d], [b, a, d, c], [b, c, a, d], [b, c, d, a], [b, d, a, c], [b, d, c, a],
               [c, a, b, d], [c, a, d, b], [c, b, a, d], [c, b, d, a], [c, d, a, b], [c, d, b, a],
               [d, a, b, c], [d, a, c, b], [d, b, a, c], [d, b, c, a], [d, c, a, b], [d, c, b, a]}"
  shows "array_sort cmp xs = Inr [d, c, b, a]"
  using assms(13) unfolding insert_iff empty_iff
  by (elim disjE; simp add: array_sort_def CountAndMakeRun_def binary_search.simps assms(1-12))

section \<open>Properties of the handlers\<close>

text \<open>
  C10. For every id string given to get, the answer is the genre whose id equals
  \<^verbatim>\<open>parseInt\<close> of the string, and NotFound when there is none or when
  \<^verbatim>\<open>parseInt\<close> gives NaN; \<^verbatim>\<open>"5abc"\<close> parses to 5 and so addresses the
  same genre as \<^verbatim>\<open>"5"\<close>.
\<close>

theorem get_genre_parseInt:
  "get_genre st i =
     (case parseInt i of
        None \<Rightarrow> Inl NotFound
      | Some n \<Rightarrow> (case find (\<lambda>g. gid g = n) (genres st) of
                     None \<Rightarrow> Inl NotFound | Some g \<Rightarrow> Inr g))
   \<and> parseInt ''5abc'' = Some 5
   \<and> get_genre st ''5abc'' = get_genre st ''5''"
proof -
  have a: "parseInt ''5abc'' = Some 5"
    by (simp add: parseInt_def is_ws_def code_def is_digit_def digit_val_def digit_of_def)
  have b: "parseInt ''5'' = Some 5"
    by (simp add: parseInt_def is_ws_def code_def is_digit_def digit_val_def digit_of_def)
  have c: "find (\<lambda>g. False) (genres st) = None"
    by (simp add: find_None_iff)
  show ?thesis
    by (cases "parseInt i") (simp_all add: get_genre_def findGenreById_def a b c)
qed

theorem get_genre_parseInt_witness:
  "get_genre (initial ''t1'' ''t2'' ''t3'' ''t4'') ''3abc'' =
     Inr \<lparr>gid = 3, gname = ''Drama'', gdescription = ''Emotion-driven storytelling'',
          gimage = Str ''/images/drama.jpg'', createdAt = ''t3'', updatedAt = None\<rparr>
   \<and> get_genre (initial ''t1'' ''t2'' ''t3'' ''t4'') ''abc'' = Inl NotFound"
proof -
  have a: "parseInt ''3abc'' = Some 3" "parseInt ''abc'' = None"
    by (simp_all add: str_eval)
  show ?thesis
    using get_genre_parseInt [of "initial ''t1'' ''t2'' ''t3'' ''t4''" "''3abc''"]
      get_genre_parseInt [of "initial ''t1'' ''t2'' ''t3'' ''t4''" "''abc''"]
    by (simp add: a initial_def seed_def)
qed

text \<open>
  C9. A create request whose image is the empty string is answered exactly as the same
  request without an image; when it succeeds, the image of the created record is
  \<^verbatim>\<open>/images/\<close>, the lower-cased name without any white space, \<^verbatim>\<open>.jpg\<close>.
\<close>

theorem create_empty_image:
  "create_genre st \<lparr>body_name = nm, body_description = ds, body_image = Str ''''\<rparr> t1 t2 =
   create_genre st \<lparr>body_name = nm, body_description = ds, body_image = Undefined\<rparr> t1 t2
   \<and> (\<forall>g st'. create_genre st \<lparr>body_name = nm, body_description = ds, body_image = Str ''''\<rparr> t1 t2
                 = (Inr g, st') \<longrightarrow>
        (\<exists>n. nm = Str n \<and>
           gimage g = Str (''/images/'' @ filter (\<lambda>c. \<not> is_ws c) (toLowerCase n) @ ''.jpg'')))"
  by (auto simp: create_genre_def getNextId_def default_image_def remove_ws_def Let_def
           split: sum.splits if_splits jsval.splits option.splits prod.splits)

theorem create_empty_image_witness:
  "create_genre (initial ''t1'' ''t2'' ''t3'' ''t4'')
     \<lparr>body_name = Str '' Film Noir '', body_description = Str ''Dark films'', body_image = Str ''''\<rparr>
     ''t5'' ''t6'' =
   (Inr \<lparr>gid = 5, gname = ''Film Noir'', gdescription = ''Dark films'',
         gimage = Str ''/images/filmnoir.jpg'', createdAt = ''t5'', updatedAt = Some ''t6''\<rparr>,
    \<lparr>genres = seed ''t1'' ''t2'' ''t3'' ''t4'' @
        [\<lparr>gid = 5, gname = ''Film Noir'', gdescription = ''Dark films'',
          gimage = Str ''/images/filmnoir.jpg'', createdAt = ''t5'', updatedAt = Some ''t6''\<rparr>],
      nextId = 6\<rparr>)
   \<and> ''/images/'' @ filter (\<lambda>c. \<not> is_ws c) (toLowerCase '' Film Noir '') @ ''.jpg''
       = ''/images/filmnoir.jpg''"
  using create_empty_image [of "initial ''t1'' ''t2'' ''t3'' ''t4''" "Str '' Film Noir ''"
      "Str ''Dark films''" "''t5''" "''t6''"]
  by (simp add: create_genre_def validateGenre_def too_short_def getNextId_def default_image_def
      initial_def seed_def str_eval Let_def)

text \<open>
  C8. On the seed collection, list with sort \<^verbatim>\<open>name\<close> and order \<^verbatim>\<open>desc\<close>
  returns the four records in the order Sci-Fi, Drama, Comedy, Action. The comparator
  of that request compares the lower-cased names, and the answer is the same for every
  order in which the four seed records stand in the store.
\<close>

theorem list_seed_name_desc:
  "list_genres (initial t1 t2 t3 t4)
     \<lparr>q_sort = Some ''name'', q_order = Some ''desc'', q_search = None\<rparr>
   = Inr (rev (seed t1 t2 t3 t4))
   \<and> map gname (rev (seed t1 t2 t3 t4)) = [''Sci-Fi'', ''Drama'', ''Comedy'', ''Action'']
   \<and> (\<forall>a b. comparator ''name'' (Some ''desc'') a b =
          Inr (if str_less (toLowerCase (gname a)) (toLowerCase (gname b)) then 1 else - 1))
   \<and> (\<forall>xs n. length xs = 4 \<and> set xs = set (seed t1 t2 t3 t4) \<longrightarrow>
          list_genres \<lparr>genres = xs, nextId = n\<rparr>
            \<lparr>q_sort = Some ''name'', q_order = Some ''desc'', q_search = None\<rparr>
          = Inr (rev (seed t1 t2 t3 t4)))"
proof -
  let ?a = "\<lparr>gid = 1, gname = ''Action'', gdescription = ''Fast-paced, stunt-heavy films'',
             gimage = Str ''/images/action.jpg'', createdAt = t1, updatedAt = None\<rparr>"
  let ?b = "\<lparr>gid = 2, gname = ''Comedy'', gdescription = ''Funny films to make you laugh'',
             gimage = Str ''/images/comedy.jpg'', createdAt = t2, updatedAt = None\<rparr>"
  let ?c = "\<lparr>gid = 3, gname = ''Drama'', gdescription = ''Emotion-driven storytelling'',
             gimage = Str ''/images/drama.jpg'', createdAt = t3, updatedAt = None\<rparr>"
  let ?d = "\<lparr>gid = 4, gname = ''Sci-Fi'', gdescription = ''Futuristic concepts and tech'',
             gimage = Str ''/images/scifi.jpg'', createdAt = t4, updatedAt = None\<rparr>"
  let ?cmp = "comparator ''name'' (Some ''desc'')"
  have seed: "seed t1 t2 t3 t4 = [?a, ?b, ?c, ?d]" by (simp add: seed_def)
  have cmp: "?cmp ?a ?b = Inr 1" "?cmp ?a ?c = Inr 1" "?cmp ?a ?d = Inr 1"
    "?cmp ?b ?c = Inr 1" "?cmp ?b ?d = Inr 1" "?cmp ?c ?d = Inr 1"
    "?cmp ?b ?a = Inr (- 1)" "?cmp ?c ?a = Inr (- 1)" "?cmp ?d ?a = Inr (- 1)"
    "?cmp ?c ?b = Inr (- 1)" "?cmp ?d ?b = Inr (- 1)" "?cmp ?d ?c = Inr (- 1)"
    by (simp_all add: comparator_name_desc str_eval)
  have dist: "distinct [?a, ?b, ?c, ?d]" by simp
  have sorted: "array_sort ?cmp xs = Inr [?d, ?c, ?b, ?a]"
    if "length xs = 4" and "set xs = {?a, ?b, ?c, ?d}" for xs
    using cmp arrangements_of_four [OF dist that] by (rule sort_four_descending)
  have all: "list_genres \<lparr>genres = xs, nextId = n\<rparr>
               \<lparr>q_sort = Some ''name'', q_order = Some ''desc'', q_search = None\<rparr>
             = Inr (rev (seed t1 t2 t3 t4))"
    if "length xs = 4" and "set xs = set (seed t1 t2 t3 t4)" for xs n
  proof -
    from that(2) have "set xs = {?a, ?b, ?c, ?d}" by (simp only: seed list.set)
    from sorted [OF that(1) this] show ?thesis
      by (simp add: list_genres_def seed)
  qed
  have "length (seed t1 t2 t3 t4) = 4" by (simp add: seed)
  from all [OF this refl, of 5]
  have first: "list_genres (initial t1 t2 t3 t4)
     \<lparr>q_sort = Some ''name'', q_order = Some ''desc'', q_search = None\<rparr>
   = Inr (rev (seed t1 t2 t3 t4))"
    by (simp add: initial_def)
  have names: "map gname (rev (seed t1 t2 t3 t4)) = [''Sci-Fi'', ''Drama'', ''Comedy'', ''Action'']"
    by (simp add: seed)
  from first names comparator_name_desc all show ?thesis by blast
qed

theorem list_seed_name_desc_witness:
  "map gname (projr (list_genres
     \<lparr>genres = [seed ''t1'' ''t2'' ''t3'' ''t4'' ! 2, seed ''t1'' ''t2'' ''t3'' ''t4'' ! 0,
                seed ''t1'' ''t2'' ''t3'' ''t4'' ! 3, seed ''t1'' ''t2'' ''t3'' ''t4'' ! 1],
      nextId = 5\<rparr>
     \<lparr>q_sort = Some ''name'', q_order = Some ''desc'', q_search = None\<rparr>))
   = [''Sci-Fi'', ''Drama'', ''Comedy'', ''Action'']"
proof -
  let ?s = "seed ''t1'' ''t2'' ''t3'' ''t4''"
  let ?xs = "[?s ! 2, ?s ! 0, ?s ! 3, ?s ! 1]"
  have h: "length ?xs = 4 \<and> set ?xs = set ?s"
    by (auto simp: seed_def)
  from list_seed_name_desc [of "''t1''" "''t2''" "''t3''" "''t4''"] h
  have "list_genres \<lparr>genres = ?xs, nextId = 5\<rparr>
          \<lparr>q_sort = Some ''name'', q_order = Some ''desc'', q_search = None\<rparr> = Inr (rev ?s)"
    by blast
  then show ?thesis by (simp add: seed_def)
qed

text \<open>
  C7. A successful patch whose body has only a description leaves the name, the image
  and \<^verbatim>\<open>createdAt\<close> of the genre as they were, sets \<^verbatim>\<open>updatedAt\<close> to the
  clock reading of the request, and stores the record in the place of the old one.
\<close>

theorem patch_description_only:
  assumes "patch_genre st i \<lparr>body_name = Undefined, body_description = d, body_image = Undefined\<rparr>
             now = (Inr g', st')"
  shows "\<exists>k<length (genres st).
           findIndex (\<lambda>g. Some (gid g) = parseInt i) (genres st) = Some k \<and>
           gid g' = gid (genres st ! k) \<and>
           gname g' = gname (genres st ! k) \<and>
           gimage g' = gimage (genres st ! k) \<and>
           createdAt g' = createdAt (genres st ! k) \<and>
           updatedAt g' = Some now \<and>
           st' = st\<lparr>genres := (genres st)[k := g']\<rparr>"
proof -
  from assms obtain k where k: "findIndex (\<lambda>g. Some (gid g) = parseInt i) (genres st) = Some k"
    by (auto simp: patch_genre_def split: option.splits)
  then have len: "k < length (genres st)"
    by (simp add: findIndex_Some)
  from assms k obtain u where u: "collect_updates
      \<lparr>body_name = Undefined, body_description = d, body_image = Undefined\<rparr> = Inr u"
    by (auto simp: patch_genre_def split: sum.splits)
  then have un: "upd_name u = None" "upd_image u = None"
    by (auto simp: collect_updates_def trimmed_field_def split: sum.splits jsval.splits)
  from assms k u un have g': "g' = apply_updates (genres st ! k) u now"
      and st': "st' = st\<lparr>genres := (genres st)[k := g']\<rparr>"
    by (auto simp: patch_genre_def Let_def split: sum.splits if_splits)
  from g' un have "gid g' = gid (genres st ! k)" "gname g' = gname (genres st ! k)"
      "gimage g' = gimage (genres st ! k)" "createdAt g' = createdAt (genres st ! k)"
      "updatedAt g' = Some now"
    by (simp_all add: apply_updates_def)
  with k len st' show ?thesis by blast
qed

theorem patch_description_only_witness:
  "patch_genre (initial ''t1'' ''t2'' ''t3'' ''t4'') ''2''
     \<lparr>body_name = Undefined, body_description = Str '' Witty films '', body_image = Undefined\<rparr>
     ''t5'' =
   (Inr \<lparr>gid = 2, gname = ''Comedy'', gdescription = ''Witty films'',
         gimage = Str ''/images/comedy.jpg'', createdAt = ''t2'', updatedAt = Some ''t5''\<rparr>,
    (initial ''t1'' ''t2'' ''t3'' ''t4'')
      \<lparr>genres := (seed ''t1'' ''t2'' ''t3'' ''t4'')
         [1 := \<lparr>gid = 2, gname = ''Comedy'', gdescription = ''Witty films'',
                gimage = Str ''/images/comedy.jpg'', createdAt = ''t2'',
                updatedAt = Some ''t5''\<rparr>]\<rparr>)
   \<and> (\<exists>k<length (genres (initial ''t1'' ''t2'' ''t3'' ''t4'')).
         gname (genres (initial ''t1'' ''t2'' ''t3'' ''t4'') ! k) = ''Comedy'')"
proof -
  have e: "patch_genre (initial ''t1'' ''t2'' ''t3'' ''t4'') ''2''
     \<lparr>body_name = Undefined, body_description = Str '' Witty films '', body_image = Undefined\<rparr>
     ''t5'' =
   (Inr \<lparr>gid = 2, gname = ''Comedy'', gdescription = ''Witty films'',
         gimage = Str ''/images/comedy.jpg'', createdAt = ''t2'', updatedAt = Some ''t5''\<rparr>,
    (initial ''t1'' ''t2'' ''t3'' ''t4'')
      \<lparr>genres := (seed ''t1'' ''t2'' ''t3'' ''t4'')
         [1 := \<lparr>gid = 2, gname = ''Comedy'', gdescription = ''Witty films'',
                gimage = Str ''/images/comedy.jpg'', createdAt = ''t2'',
                updatedAt = Some ''t5''\<rparr>]\<rparr>)"
    by code_simp
  from patch_description_only [OF e] obtain k
    where "k < length (genres (initial ''t1'' ''t2'' ''t3'' ''t4''))"
      and "''Comedy'' = gname (genres (initial ''t1'' ''t2'' ''t3'' ''t4'') ! k)"
    by auto
  with e show ?thesis by auto
qed

text \<open>
  C6, as amended. In every store that a run of the service reaches, the bulk delete of a
  non-empty array of ids of which every element converts to a string does not fail.
  Taking the ids in order, an element removes a genre and appends its record to
  \<^verbatim>\<open>deleted\<close> when \<^verbatim>\<open>parseInt\<close> of the element is the id of a genre that is
  still in the store, that is, of a genre of the store while no earlier element parses
  to the same id; every other element is appended to \<^verbatim>\<open>notFound\<close>. The store
  keeps, in their order and unchanged, exactly the genres whose id no element parses to.
\<close>

theorem bulkDelete_reports:
  assumes "run reqs (initial t1 t2 t3 t4) = (as, st)" and "ids \<noteq> []"
    and "\<forall>i\<in>set ids. to_string i \<noteq> Inl TypeError"
  shows "let key = parseInt_value;
             found = (\<lambda>i. find (\<lambda>g. Inr (Some (gid g)) = key i) (genres st));
             D = concat (map (\<lambda>j. case found (ids ! j) of
                                     None \<Rightarrow> []
                                   | Some g \<Rightarrow>
                                       if key (ids ! j) \<in> key ` set (take j ids) then []
                                       else [g])
                             [0..<length ids]);
             N = concat (map (\<lambda>j. if found (ids ! j) \<noteq> None \<and>
                                      key (ids ! j) \<notin> key ` set (take j ids)
                                   then [] else [ids ! j])
                             [0..<length ids])
         in bulkDelete st (Arr ids) =
              (Inr \<lparr>deleted = D, deletedCount = length D, notFound = N\<rparr>,
               st\<lparr>genres := filter (\<lambda>g. Inr (Some (gid g)) \<notin> key ` set ids) (genres st)\<rparr>)"
proof -
  from run_inv [OF assms(1) store_inv_initial] have d: "distinct (map gid (genres st))"
    by (simp add: store_inv_def)
  from assms(3) have nt: "\<forall>i\<in>set ids. parseInt_value i \<noteq> Inl TypeError"
    by (auto simp: parseInt_value_def split: sum.splits)
  show ?thesis
    using assms(2) by (simp add: bulkDelete_def bulk_loop_closed [OF d nt] Let_def)
qed

theorem bulkDelete_reports_witness:
  "bulkDelete (initial ''t1'' ''t2'' ''t3'' ''t4'')
     (Arr [Num (num_of_int 2), Str ''2'', Str ''4x'', Obj [], Num (num_of_int 9),
           Num (Dec False 1 22)]) =
     (Inr \<lparr>deleted =
             [\<lparr>gid = 2, gname = ''Comedy'', gdescription = ''Funny films to make you laugh'',
               gimage = Str ''/images/comedy.jpg'', createdAt = ''t2'', updatedAt = None\<rparr>,
              \<lparr>gid = 4, gname = ''Sci-Fi'', gdescription = ''Futuristic concepts and tech'',
               gimage = Str ''/images/scifi.jpg'', createdAt = ''t4'', updatedAt = None\<rparr>,
              \<lparr>gid = 1, gname = ''Action'', gdescription = ''Fast-paced, stunt-heavy films'',
               gimage = Str ''/images/action.jpg'', createdAt = ''t1'', updatedAt = None\<rparr>],
           deletedCount = 3,
           notFound = [Str ''2'', Obj [], Num (num_of_int 9)]\<rparr>,
      \<lparr>genres =
         [\<lparr>gid = 3, gname = ''Drama'', gdescription = ''Emotion-driven storytelling'',
           gimage = Str ''/images/drama.jpg'', createdAt = ''t3'', updatedAt = None\<rparr>],
       nextId = 5\<rparr>)"
proof -
  let ?st = "initial ''t1'' ''t2'' ''t3'' ''t4''"
  let ?ids = "[Num (num_of_int 2), Str ''2'', Str ''4x'', Obj [], Num (num_of_int 9),
               Num (Dec False 1 22)]"
  let ?key = parseInt_value
  let ?found = "\<lambda>i. find (\<lambda>g. Inr (Some (gid g)) = ?key i) (genres ?st)"
  have r: "run [] ?st = ([], ?st)" by simp
  have n: "?ids \<noteq> []" by simp
  have t: "\<forall>i\<in>set ?ids. to_string i \<noteq> Inl TypeError" by simp
  have e1: "concat (map (\<lambda>j. case ?found (?ids ! j) of
                                     None \<Rightarrow> []
                                   | Some g \<Rightarrow>
                                       if ?key (?ids ! j) \<in> ?key ` set (take j ?ids) then []
                                       else [g])
                             [0..<length ?ids]) =
     [\<lparr>gid = 2, gname = ''Comedy'', gdescription = ''Funny films to make you laugh'',
        gimage = Str ''/images/comedy.jpg'', createdAt = ''t2'', updatedAt = None\<rparr>,
      \<lparr>gid = 4, gname = ''Sci-Fi'', gdescription = ''Futuristic concepts and tech'',
        gimage = Str ''/images/scifi.jpg'', createdAt = ''t4'', updatedAt = None\<rparr>,
      \<lparr>gid = 1, gname = ''Action'', gdescription = ''Fast-paced, stunt-heavy films'',
        gimage = Str ''/images/action.jpg'', createdAt = ''t1'', updatedAt = None\<rparr>]"
    by code_simp
  have e2: "concat (map (\<lambda>j. if ?found (?ids ! j) \<noteq> None \<and>
                                      ?key (?ids ! j) \<notin> ?key ` set (take j ?ids)
                                   then [] else [?ids ! j])
                             [0..<length ?ids]) = [Str ''2'', Obj [], Num (num_of_int 9)]"
    by code_simp
  have e3: "filter (\<lambda>g. Inr (Some (gid g)) \<notin> ?key ` set ?ids) (genres ?st) =
     [\<lparr>gid = 3, gname = ''Drama'', gdescription = ''Emotion-driven storytelling'',
        gimage = Str ''/images/drama.jpg'', createdAt = ''t3'', updatedAt = None\<rparr>]"
    by code_simp
  show ?thesis
    using bulkDelete_reports [OF r n t] unfolding Let_def e1 e2 e3 by (simp add: initial_def)
qed

text \<open>
  C6 as stated fails in two ways. An element that does not convert to a string, an
  object with an own property \<^verbatim>\<open>toString\<close>, makes the handler answer with status
  500 after the elements before it have removed their genres. And an element is taken
  for the id that \<^verbatim>\<open>parseInt\<close> reads from it: \<^verbatim>\<open>"4x"\<close> is the id of no genre,
  yet it removes genre 4.
\<close>

theorem bulkDelete_reports_counterexample:
  "bulkDelete (initial ''t1'' ''t2'' ''t3'' ''t4'')
     (Arr [Num (num_of_int 1), Obj [(''toString'', Null)]]) =
     (Inl InternalError,
      \<lparr>genres =
         [\<lparr>gid = 2, gname = ''Comedy'', gdescription = ''Funny films to make you laugh'',
           gimage = Str ''/images/comedy.jpg'', createdAt = ''t2'', updatedAt = None\<rparr>,
          \<lparr>gid = 3, gname = ''Drama'', gdescription = ''Emotion-driven storytelling'',
           gimage = Str ''/images/drama.jpg'', createdAt = ''t3'', updatedAt = None\<rparr>,
          \<lparr>gid = 4, gname = ''Sci-Fi'', gdescription = ''Futuristic concepts and tech'',
           gimage = Str ''/images/scifi.jpg'', createdAt = ''t4'', updatedAt = None\<rparr>],
       nextId = 5\<rparr>)
   \<and> map gid (genres (initial ''t1'' ''t2'' ''t3'' ''t4'')) = [1, 2, 3, 4]
   \<and> bulkDelete (initial ''t1'' ''t2'' ''t3'' ''t4'') (Arr [Str ''4x'']) =
     (Inr \<lparr>deleted =
             [\<lparr>gid = 4, gname = ''Sci-Fi'', gdescription = ''Futuristic concepts and tech'',
               gimage = Str ''/images/scifi.jpg'', createdAt = ''t4'', updatedAt = None\<rparr>],
           deletedCount = 1, notFound = []\<rparr>,
      \<lparr>genres =
         [\<lparr>gid = 1, gname = ''Action'', gdescription = ''Fast-paced, stunt-heavy films'',
           gimage = Str ''/images/action.jpg'', createdAt = ''t1'', updatedAt = None\<rparr>,
          \<lparr>gid = 2, gname = ''Comedy'', gdescription = ''Funny films to make you laugh'',
           gimage = Str ''/images/comedy.jpg'', createdAt = ''t2'', updatedAt = None\<rparr>,
          \<lparr>gid = 3, gname = ''Drama'', gdescription = ''Emotion-driven storytelling'',
           gimage = Str ''/images/drama.jpg'', createdAt = ''t3'', updatedAt = None\<rparr>],
       nextId = 5\<rparr>)"
  by code_simp

text \<open>
  C2. In every store that a run of the service reaches, the id of the record that a
  successful create returns is different from, and greater than, the id of every seed
  record, of every record that a create of the run returned, and of every genre in the
  store.
\<close>

theorem create_id_fresh:
  assumes "run reqs (initial t1 t2 t3 t4) = (as, st)"
    and "create_genre st b ta tb = (Inr g, st')"
  shows "gid g \<notin> gid ` (set (seed t1 t2 t3 t4) \<union> set (created as) \<union> set (genres st)) \<and>
         (\<forall>h \<in> set (seed t1 t2 t3 t4) \<union> set (created as) \<union> set (genres st). gid h < gid g)"
proof -
  from run_inv [OF assms(1) store_inv_initial] have inv: "store_inv st"
    and lo: "5 \<le> nextId st"
    and cr: "\<forall>h\<in>set (created as). gid h < nextId st"
    by (simp_all add: initial_def)
  from create_genre_shape [OF assms(2)] have g: "gid g = nextId st" by simp
  from inv have st: "\<forall>h\<in>set (genres st). gid h < nextId st"
    by (simp add: store_inv_def list_all_iff)
  from lo have sd: "\<forall>h\<in>set (seed t1 t2 t3 t4). gid h < nextId st"
    by (simp add: seed_def)
  from cr st sd g
  have lt: "\<forall>h \<in> set (seed t1 t2 t3 t4) \<union> set (created as) \<union> set (genres st). gid h < gid g"
    by auto
  then have "gid g \<notin> gid ` (set (seed t1 t2 t3 t4) \<union> set (created as) \<union> set (genres st))"
    by force
  with lt show ?thesis by simp
qed

theorem create_id_fresh_witness:
  "create_genre \<lparr>genres = seed ''t1'' ''t2'' ''t3'' ''t4'', nextId = 6\<rparr>
     \<lparr>body_name = Str ''Romance'', body_description = Str ''Love stories'',
      body_image = Undefined\<rparr> ''t7'' ''t8'' =
     (Inr \<lparr>gid = 6, gname = ''Romance'', gdescription = ''Love stories'',
           gimage = Str ''/images/romance.jpg'', createdAt = ''t7'', updatedAt = Some ''t8''\<rparr>,
      \<lparr>genres = seed ''t1'' ''t2'' ''t3'' ''t4'' @
         [\<lparr>gid = 6, gname = ''Romance'', gdescription = ''Love stories'',
           gimage = Str ''/images/romance.jpg'', createdAt = ''t7'',
           updatedAt = Some ''t8''\<rparr>],
       nextId = 7\<rparr>)
   \<and> gid \<lparr>gid = 5, gname = ''Horror'', gdescription = ''Scary films'',
           gimage = Str ''/images/horror.jpg'', createdAt = ''t5'', updatedAt = Some ''t6''\<rparr>
       < (6 :: int)
   \<and> (6 :: int) \<notin> gid ` set (seed ''t1'' ''t2'' ''t3'' ''t4'')"
proof -
  let ?st0 = "initial ''t1'' ''t2'' ''t3'' ''t4''"
  let ?h = "\<lparr>gid = 5, gname = ''Horror'', gdescription = ''Scary films'',
            gimage = Str ''/images/horror.jpg'', createdAt = ''t5'', updatedAt = Some ''t6''\<rparr>"
  let ?r = "\<lparr>gid = 6, gname = ''Romance'', gdescription = ''Love stories'',
            gimage = Str ''/images/romance.jpg'', createdAt = ''t7'', updatedAt = Some ''t8''\<rparr>"
  let ?st1 = "\<lparr>genres = seed ''t1'' ''t2'' ''t3'' ''t4'', nextId = 6\<rparr>"
  have r: "run [Create \<lparr>body_name = Str ''Horror'', body_description = Str ''Scary films'',
                         body_image = Undefined\<rparr> ''t5'' ''t6'', Delete ''5'']
             ?st0 = ([Created (Inr ?h), Deleted (Inr ?h)], ?st1)"
    by code_simp
  have c: "create_genre ?st1
             \<lparr>body_name = Str ''Romance'', body_description = Str ''Love stories'',
              body_image = Undefined\<rparr> ''t7'' ''t8'' =
           (Inr ?r, \<lparr>genres = seed ''t1'' ''t2'' ''t3'' ''t4'' @ [?r], nextId = 7\<rparr>)"
    by code_simp
  from create_id_fresh [OF r c] have "gid ?h < gid ?r"
    and "gid ?r \<notin> gid ` set (seed ''t1'' ''t2'' ''t3'' ''t4'')"
    by simp_all
  with c show ?thesis by simp
qed

text \<open>
  C3. The seed records are written without \<^verbatim>\<open>updatedAt\<close>: at the start of the
  process no genre of the store has the field, and get returns the record without it.
\<close>

theorem seed_without_updatedAt:
  "map updatedAt (genres (initial t1 t2 t3 t4)) = [None, None, None, None] \<and>
   get_genre (initial t1 t2 t3 t4) ''1'' =
     Inr \<lparr>gid = 1, gname = ''Action'', gdescription = ''Fast-paced, stunt-heavy films'',
          gimage = Str ''/images/action.jpg'', createdAt = t1, updatedAt = None\<rparr>"
  by (simp add: get_genre_def findGenreById_def initial_def seed_def str_eval)

text \<open>
  C4, as amended. A create request, and a replace request on an id that the store has,
  whose name has fewer than 2 characters after trimming and whose description has fewer
  than 5, fails with the validation error that lists both violations, and leaves the
  store as it was.
\<close>

theorem validation_lists_both:
  assumes "body_name b = Str n" and "body_description b = Str d"
    and "length (trim n) < 2" and "length (trim d) < 5"
  shows "create_genre st b t1 t2 =
           (Inl (ValidationError [''Name must be at least 2 characters long'',
                                  ''Description must be at least 5 characters long'']), st)
         \<and> (findIndex (\<lambda>g. Some (gid g) = parseInt i) (genres st) \<noteq> None \<longrightarrow>
              replace_genre st i b now =
                (Inl (ValidationError [''Name must be at least 2 characters long'',
                                       ''Description must be at least 5 characters long'']), st))"
  using assms by (auto simp: create_genre_def replace_genre_def validateGenre_Str)

theorem validation_lists_both_witness:
  "create_genre (initial ''t1'' ''t2'' ''t3'' ''t4'')
     \<lparr>body_name = Str '' x '', body_description = Str ''abcd'', body_image = Undefined\<rparr>
     ''t5'' ''t6'' =
     (Inl (ValidationError [''Name must be at least 2 characters long'',
                            ''Description must be at least 5 characters long'']),
      initial ''t1'' ''t2'' ''t3'' ''t4'')
   \<and> replace_genre (initial ''t1'' ''t2'' ''t3'' ''t4'') ''2''
     \<lparr>body_name = Str '' x '', body_description = Str ''abcd'', body_image = Undefined\<rparr>
     ''t5'' =
     (Inl (ValidationError [''Name must be at least 2 characters long'',
                            ''Description must be at least 5 characters long'']),
      initial ''t1'' ''t2'' ''t3'' ''t4'')"
proof -
  have a: "length (trim '' x '') < 2" "length (trim ''abcd'') < 5"
    by (simp_all add: str_eval)
  have b: "findIndex (\<lambda>g. Some (gid g) = parseInt ''2'') (genres (initial ''t1'' ''t2'' ''t3'' ''t4''))
            \<noteq> None"
    by (simp add: initial_def seed_def str_eval)
  show ?thesis
    using validation_lists_both [of "\<lparr>body_name = Str '' x '', body_description = Str ''abcd'',
        body_image = Undefined\<rparr>" "'' x ''" "''abcd''" "initial ''t1'' ''t2'' ''t3'' ''t4''"
        "''t5''" "''t6''" "''2''" "''t5''"] a b
    by simp
qed

text \<open>
  C4 as stated fails for a replace request on an id that the store does not have: the
  handler answers NotFound before it validates.
\<close>

theorem validation_lists_both_counterexample:
  "length (trim '''') < 2 \<and> length (trim '''') < 5 \<and>
   replace_genre (initial ''t1'' ''t2'' ''t3'' ''t4'') ''999''
     \<lparr>body_name = Str '''', body_description = Str '''', body_image = Undefined\<rparr> ''t5''
   = (Inl NotFound, initial ''t1'' ''t2'' ''t3'' ''t4'')"
  by (simp add: replace_genre_def initial_def seed_def str_eval)

text \<open>
  C5, as amended. A create request that passes validation (a name of at least 2 and a
  description of at least 5 characters after trimming) and whose trimmed name equals,
  without regard to case, the name of a genre in the store fails with ConflictError and
  leaves the store as it was, whatever the image is.
\<close>

theorem create_duplicate_name:
  assumes "body_name b = Str n" and "body_description b = Str d"
    and "2 \<le> length (trim n)" and "5 \<le> length (trim d)"
    and "g \<in> set (genres st)" and "toLowerCase (gname g) = toLowerCase (trim n)"
  shows "create_genre st b t1 t2 = (Inl ConflictError, st)"
proof -
  from assms(5,6) have "find (\<lambda>g. toLowerCase (gname g) = toLowerCase (trim n)) (genres st) \<noteq> None"
    by (auto simp: find_None_iff)
  with assms(1-4) show ?thesis
    by (auto simp: create_genre_def validateGenre_Str)
qed

theorem create_duplicate_name_witness:
  "create_genre (initial ''t1'' ''t2'' ''t3'' ''t4'')
     \<lparr>body_name = Str '' sci-FI '', body_description = Str ''Space films'', body_image = Num (num_of_int 7)\<rparr>
     ''t5'' ''t6''
   = (Inl ConflictError, initial ''t1'' ''t2'' ''t3'' ''t4'')"
proof -
  let ?g = "\<lparr>gid = 4, gname = ''Sci-Fi'', gdescription = ''Futuristic concepts and tech'',
        gimage = Str ''/images/scifi.jpg'', createdAt = ''t4'', updatedAt = None\<rparr>"
  have a: "2 \<le> length (trim '' sci-FI '')" "5 \<le> length (trim ''Space films'')"
    "toLowerCase (gname ?g) = toLowerCase (trim '' sci-FI '')"
    by (simp_all add: str_eval)
  have b: "?g \<in> set (genres (initial ''t1'' ''t2'' ''t3'' ''t4''))"
    by (simp add: initial_def seed_def)
  show ?thesis
    using create_duplicate_name [of "\<lparr>body_name = Str '' sci-FI '',
        body_description = Str ''Space films'', body_image = Num (num_of_int 7)\<rparr>" "'' sci-FI ''"
        "''Space films''" ?g "initial ''t1'' ''t2'' ''t3'' ''t4''" "''t5''" "''t6''"] a b
    by simp
qed

text \<open>
  C5 as stated fails for a description that is too short: validation comes first, and
  the request is answered with the validation error.
\<close>

theorem create_duplicate_name_counterexample:
  "toLowerCase (trim ''ACTION'') = toLowerCase ''Action'' \<and>
   create_genre (initial ''t1'' ''t2'' ''t3'' ''t4'')
     \<lparr>body_name = Str ''ACTION'', body_description = Str ''abc'', body_image = Undefined\<rparr>
     ''t5'' ''t6''
   = (Inl (ValidationError [''Description must be at least 5 characters long'']),
      initial ''t1'' ''t2'' ''t3'' ''t4'')"
  by (simp add: create_genre_def validateGenre_Str str_eval)

text \<open>
  C1, as amended. For a patch request on an id that the store has, in which name or
  description is present and each of the two that is present is a string that is not
  empty after trimming: the request fails with a validation error exactly when the
  combined record (the trimmed fields of the request, the stored values for absent
  ones) has a name of fewer than 2 or a description of fewer than 5 characters after
  trimming. When the combined record is valid, the request fails with ConflictError if
  the name is present and another genre has it without regard to case, and otherwise
  the merged record, with \<^verbatim>\<open>updatedAt\<close> refreshed, is returned and stored.
\<close>

theorem patch_validation:
  assumes idx: "findIndex (\<lambda>g. Some (gid g) = parseInt i) (genres st) = Some k"
    and nm: "body_name b = Undefined \<or> (\<exists>n. body_name b = Str n \<and> trim n \<noteq> [])"
    and ds: "body_description b = Undefined \<or> (\<exists>d. body_description b = Str d \<and> trim d \<noteq> [])"
    and present: "body_name b \<noteq> Undefined \<or> body_description b \<noteq> Undefined"
  shows "let old = genres st ! k;
             cn = (case body_name b of Str n \<Rightarrow> trim n | _ \<Rightarrow> gname old);
             cd = (case body_description b of Str d \<Rightarrow> trim d | _ \<Rightarrow> gdescription old);
             merged = old\<lparr>gname := cn, gdescription := cd,
                          gimage := (if body_image b = Undefined then gimage old
                                     else body_image b),
                          updatedAt := Some now\<rparr>
         in ((\<exists>errs. patch_genre st i b now = (Inl (ValidationError errs), st))
               \<longleftrightarrow> (length (trim cn) < 2 \<or> length (trim cd) < 5))
          \<and> (\<not> (length (trim cn) < 2 \<or> length (trim cd) < 5) \<longrightarrow>
               patch_genre st i b now =
                 (if body_name b \<noteq> Undefined \<and>
                     (\<exists>g\<in>set (genres st). Some (gid g) \<noteq> parseInt i \<and>
                        toLowerCase (gname g) = toLowerCase cn)
                  then (Inl ConflictError, st)
                  else (Inr merged, st\<lparr>genres := (genres st)[k := merged]\<rparr>)))"
proof -
  consider
    (name) n where "body_name b = Str n" "trim n \<noteq> []" "body_description b = Undefined"
  | (desc) d where "body_name b = Undefined" "body_description b = Str d" "trim d \<noteq> []"
  | (both) n d where "body_name b = Str n" "trim n \<noteq> []" "body_description b = Str d"
      "trim d \<noteq> []"
    using nm ds present by auto
  then show ?thesis
  proof cases
    case name
    with idx show ?thesis
      by (simp add: patch_genre_def collect_updates_def trimmed_field_def truthy_str_def
          or_else_def validateGenre_Str apply_updates_def find_not_None find_is_None
          find_is_Some Let_def)
  next
    case desc
    with idx show ?thesis
      by (simp add: patch_genre_def collect_updates_def trimmed_field_def truthy_str_def
          or_else_def validateGenre_Str apply_updates_def find_not_None find_is_None
          find_is_Some Let_def)
  next
    case both
    with idx show ?thesis
      by (simp add: patch_genre_def collect_updates_def trimmed_field_def truthy_str_def
          or_else_def validateGenre_Str apply_updates_def find_not_None find_is_None
          find_is_Some Let_def)
  qed
qed

theorem patch_validation_witness:
  "patch_genre (initial ''t1'' ''t2'' ''t3'' ''t4'') ''2''
     \<lparr>body_name = Str '' Satire '', body_description = Undefined, body_image = Undefined\<rparr> ''t5''
   = (Inr \<lparr>gid = 2, gname = ''Satire'', gdescription = ''Funny films to make you laugh'',
           gimage = Str ''/images/comedy.jpg'', createdAt = ''t2'', updatedAt = Some ''t5''\<rparr>,
      \<lparr>genres = (seed ''t1'' ''t2'' ''t3'' ''t4'')
         [1 := \<lparr>gid = 2, gname = ''Satire'', gdescription = ''Funny films to make you laugh'',
                gimage = Str ''/images/comedy.jpg'', createdAt = ''t2'',
                updatedAt = Some ''t5''\<rparr>],
       nextId = 5\<rparr>)"
proof -
  let ?st = "initial ''t1'' ''t2'' ''t3'' ''t4''"
  let ?b = "\<lparr>body_name = Str '' Satire '', body_description = Undefined, body_image = Undefined\<rparr>"
  have idx: "findIndex (\<lambda>g. Some (gid g) = parseInt ''2'') (genres ?st) = Some 1"
    by (simp add: initial_def seed_def str_eval)
  have nm: "body_name ?b = Undefined \<or> (\<exists>n. body_name ?b = Str n \<and> trim n \<noteq> [])"
    by (simp add: str_eval)
  have ds: "body_description ?b = Undefined \<or>
            (\<exists>d. body_description ?b = Str d \<and> trim d \<noteq> [])"
    by simp
  have present: "body_name ?b \<noteq> Undefined \<or> body_description ?b \<noteq> Undefined"
    by simp
  have p: "parseInt ''2'' = Some 2"
    by (simp add: str_eval)
  show ?thesis
    using patch_validation [OF idx nm ds present, of "''t5''"]
    by (simp add: Let_def p initial_def seed_def str_eval)
qed

text \<open>
  C1 as stated fails where the combined record is valid and the new name is that of
  another genre: the request neither fails with a validation error nor succeeds.
\<close>

theorem patch_validation_counterexample:
  "2 \<le> length (trim ''Comedy'') \<and> 5 \<le> length (trim ''Fast-paced, stunt-heavy films'') \<and>
   patch_genre (initial ''t1'' ''t2'' ''t3'' ''t4'') ''1''
     \<lparr>body_name = Str ''Comedy'', body_description = Undefined, body_image = Undefined\<rparr> ''t5''
   = (Inl ConflictError, initial ''t1'' ''t2'' ''t3'' ''t4'')"
  by (simp add: patch_genre_def collect_updates_def trimmed_field_def truthy_str_def or_else_def
      validateGenre_Str initial_def seed_def str_eval)

text \<open>
  A name that is present and empty after trimming is not validated at all: the test
  \<^verbatim>\<open>updates.name || updates.description\<close> takes the empty string for an absent
  field, and the merge then stores the empty name.
\<close>

lemma patch_blank_name_stored:
  "patch_genre (initial t1 t2 t3 t4) ''1''
     \<lparr>body_name = Str ''  '', body_description = Undefined, body_image = Undefined\<rparr> now =
   (Inr \<lparr>gid = 1, gname = '''', gdescription = ''Fast-paced, stunt-heavy films'',
         gimage = Str ''/images/action.jpg'', createdAt = t1, updatedAt = Some now\<rparr>,
    \<lparr>genres = (seed t1 t2 t3 t4)
       [0 := \<lparr>gid = 1, gname = '''', gdescription = ''Fast-paced, stunt-heavy films'',
              gimage = Str ''/images/action.jpg'', createdAt = t1, updatedAt = Some now\<rparr>],
     nextId = 5\<rparr>)"
  by (simp add: patch_genre_def collect_updates_def trimmed_field_def truthy_str_def
      apply_updates_def initial_def seed_def str_eval Let_def)

end
